theory Spec2Isabelle
  imports Complex_Main "HOL-Library.Word"
begin

unbundle bit_operations_syntax

section \<open>Python values used by the tools\<close>

text \<open>
  The tools under \<open>src/tools\<close> work on Python \<open>bytes\<close> (a sequence of
  integers 0..255), on unbounded Python integers and on lists. A byte is an
  \<open>8 word\<close>, read as an integer by \<open>uint\<close> as Python's \<open>chr_data[k]\<close> does;
  Python integers are \<open>int\<close>; loop variables bound by \<open>range(n)\<close> are never
  negative and are \<open>nat\<close>.

  Every \<open>raise\<close> of the source, and every exception raised by an indexing
  expression, a division or a Pillow call the source makes, is a value of
  \<open>error\<close>; a function that can raise returns \<open>error + 'a\<close>.
\<close>

type_synonym byte = "8 word"

type_synonym rgb = "int \<times> int \<times> int"

datatype error =
    ValueError_rom int int nat
      \<comment> \<open>\<open>extract_chr\<close>: \<open>Address {address} + size {size} exceeds ROM size {len}\<close>\<close>
  | IndexError
      \<comment> \<open>an index out of range in \<open>xs[i]\<close> or \<open>pixels[x, y] = c\<close>\<close>
  | ZeroDivisionError
      \<comment> \<open>\<open>a // 0\<close> or \<open>a % 0\<close>\<close>
  | ValueError_size
      \<comment> \<open>Pillow's \<open>Image.new\<close>: \<open>Width and height must be >= 0\<close>\<close>
  | OverflowError
      \<comment> \<open>Pillow: an integer argument that does not fit the C type it is read into\<close>
  | MemoryError
      \<comment> \<open>Pillow's \<open>Image.new\<close>: the raster is too wide or cannot be allocated\<close>
  | OSError
      \<comment> \<open>the output directory or file cannot be created\<close>
  | SaveError_empty
      \<comment> \<open>\<open>sheet.save\<close> on an image with a side of 0 pixels (the class of the
          exception depends on the Pillow version)\<close>

definition bind_err :: "error + 'a \<Rightarrow> ('a \<Rightarrow> error + 'b) \<Rightarrow> error + 'b" where
  "bind_err r f = (case r of Inl e \<Rightarrow> Inl e | Inr v \<Rightarrow> f v)"

text \<open>A loop that builds a list with \<open>append\<close>, or a list comprehension: the
  first element whose body raises ends it.\<close>

fun mapM :: "('a \<Rightarrow> error + 'b) \<Rightarrow> 'a list \<Rightarrow> error + 'b list" where
  "mapM f [] = Inr []"
| "mapM f (x # xs) =
     (case f x of
        Inl e \<Rightarrow> Inl e
      | Inr y \<Rightarrow> (case mapM f xs of Inl e \<Rightarrow> Inl e | Inr ys \<Rightarrow> Inr (y # ys)))"

text \<open>A \<open>for\<close> loop that updates a state: the first iteration that raises ends it.\<close>

fun foldM :: "('a \<Rightarrow> 's \<Rightarrow> error + 's) \<Rightarrow> 'a list \<Rightarrow> 's \<Rightarrow> error + 's" where
  "foldM f [] s = Inr s"
| "foldM f (x # xs) s =
     (case f x s of Inl e \<Rightarrow> Inl e | Inr s' \<Rightarrow> foldM f xs s')"

text \<open>\<open>range(n)\<close>: empty when \<open>n \<le> 0\<close>.\<close>

definition py_range :: "int \<Rightarrow> nat list" where
  "py_range n = [0..<nat n]"

text \<open>\<open>xs[i]\<close>: a negative index counts from the end, an index outside
  \<open>-len \<le> i < len\<close> raises \<open>IndexError\<close>.\<close>

definition py_index :: "'a list \<Rightarrow> int \<Rightarrow> error + 'a" where
  "py_index xs i =
     (if 0 \<le> i \<and> i < int (length xs) then Inr (xs ! nat i)
      else if i < 0 \<and> - int (length xs) \<le> i then Inr (xs ! nat (int (length xs) + i))
      else Inl IndexError)"

text \<open>\<open>xs[a:b]\<close>: a negative bound has \<open>len\<close> added, then each bound is clamped
  to \<open>0..len\<close>; the slice is empty when the bounds cross. It never raises.\<close>

definition py_slice_bound :: "nat \<Rightarrow> int \<Rightarrow> nat" where
  "py_slice_bound n i = (if i < 0 then nat (max (i + int n) 0) else nat (min i (int n)))"

definition py_slice :: "'a list \<Rightarrow> int \<Rightarrow> int \<Rightarrow> 'a list" where
  "py_slice xs a b =
     (let s = py_slice_bound (length xs) a; e = py_slice_bound (length xs) b
      in take (e - s) (drop s xs))"

section \<open>\<open>extract_chr.py\<close>\<close>

definition extract_chr :: "byte list \<Rightarrow> int \<Rightarrow> int \<Rightarrow> error + byte list" where
  "extract_chr rom_data address sz =
     (if address + sz > int (length rom_data)
      then Inl (ValueError_rom address sz (length rom_data))
      else Inr (py_slice rom_data address (address + sz)))"

definition get_prg_bank_address :: "int \<Rightarrow> int" where
  "get_prg_bank_address bank_number =
     (let header_size = 16; bank_size = 0x4000
      in header_size + (bank_number * bank_size))"

definition extract_chr_bank :: "byte list \<Rightarrow> int \<Rightarrow> error + byte list" where
  "extract_chr_bank rom_data bank_number =
     (let address = get_prg_bank_address bank_number
      in extract_chr rom_data address 8192)"

section \<open>\<open>convert_chr_to_png.py\<close>\<close>

definition NES_PALETTE :: "rgb list" where
  "NES_PALETTE = [
    (0x62, 0x62, 0x62), (0x00, 0x1f, 0xb2), (0x21, 0x0c, 0xa0), (0x44, 0x00, 0x96),
    (0x73, 0x00, 0x6b), (0x80, 0x00, 0x2e), (0x6f, 0x0f, 0x00), (0x4c, 0x1e, 0x00),
    (0x19, 0x32, 0x00), (0x00, 0x3b, 0x00), (0x00, 0x3a, 0x1e), (0x00, 0x32, 0x5d),
    (0x00, 0x00, 0x00), (0x00, 0x00, 0x00), (0x00, 0x00, 0x00), (0x00, 0x00, 0x00),
    (0xb6, 0xb6, 0xb6), (0x10, 0x5c, 0xe7), (0x48, 0x3c, 0xdb), (0x74, 0x2a, 0xd0),
    (0xa7, 0x25, 0x9f), (0xb5, 0x2e, 0x5a), (0xa0, 0x46, 0x17), (0x79, 0x57, 0x00),
    (0x46, 0x6e, 0x00), (0x27, 0x78, 0x00), (0x00, 0x76, 0x3e), (0x00, 0x6e, 0x8a),
    (0x00, 0x00, 0x00), (0x00, 0x00, 0x00), (0x00, 0x00, 0x00), (0x00, 0x00, 0x00),
    (0xff, 0xff, 0xff), (0x5f, 0xa8, 0xff), (0x8f, 0x8a, 0xff), (0xbc, 0x78, 0xff),
    (0xec, 0x71, 0xff), (0xff, 0x76, 0xba), (0xff, 0x91, 0x6f), (0xff, 0xa5, 0x29),
    (0xcc, 0xbf, 0x00), (0xa4, 0xca, 0x1c), (0x6d, 0xd8, 0x64), (0x3f, 0xd4, 0xc5),
    (0x00, 0x00, 0x00), (0x00, 0x00, 0x00), (0x00, 0x00, 0x00), (0x00, 0x00, 0x00),
    (0xff, 0xff, 0xff), (0xbd, 0xe2, 0xff), (0xd1, 0xd6, 0xff), (0xe5, 0xce, 0xff),
    (0xf8, 0xcc, 0xff), (0xff, 0xce, 0xed), (0xff, 0xd9, 0xd1), (0xff, 0xe0, 0xbf),
    (0xea, 0xea, 0x9e), (0xd8, 0xef, 0x9e), (0xc4, 0xf3, 0xbd), (0xb7, 0xf2, 0xe6),
    (0x00, 0x00, 0x00), (0x00, 0x00, 0x00), (0x00, 0x00, 0x00), (0x00, 0x00, 0x00)]"

text \<open>The inner loop of \<open>decode_tile\<close> over \<open>x in range(8)\<close>: one row of eight
  pixels from the row's low-plane and high-plane bytes.\<close>

definition decode_pixel :: "int \<Rightarrow> int \<Rightarrow> nat \<Rightarrow> int" where
  "decode_pixel low_byte high_byte x =
     (let bit_n = 7 - x;
          low_bit = drop_bit bit_n low_byte AND 1;
          high_bit = drop_bit bit_n high_byte AND 1
      in push_bit 1 high_bit OR low_bit)"

definition decode_row :: "int \<Rightarrow> int \<Rightarrow> int list" where
  "decode_row low_byte high_byte = map (decode_pixel low_byte high_byte) (py_range 8)"

definition decode_tile :: "byte list \<Rightarrow> int \<Rightarrow> error + int list list" where
  "decode_tile chr_data tile_index =
     (let offset = tile_index * 16;
          tile_low = py_slice chr_data offset (offset + 8);
          tile_high = py_slice chr_data (offset + 8) (offset + 16)
      in mapM (\<lambda>y.
           bind_err (py_index tile_low (int y)) (\<lambda>low_byte.
           bind_err (py_index tile_high (int y)) (\<lambda>high_byte.
           Inr (decode_row (uint low_byte) (uint high_byte)))))
         (py_range 8))"

definition get_palette_colors :: "int list \<Rightarrow> error + rgb list" where
  "get_palette_colors palette_indices =
     mapM (\<lambda>i. py_index NES_PALETTE (i AND 0x3f)) palette_indices"


subsection \<open>Pillow rasters\<close>

text \<open>
  The rasterizer and the compositor call three operations of the Pillow
  library on \<open>RGB\<close> images: \<open>Image.new\<close>, pixel assignment through the
  access object returned by \<open>img.load()\<close>, and \<open>Image.paste\<close>; \<open>main\<close> also
  calls \<open>Image.save\<close>. An image is its size and its rows of pixels, top row
  first: \<open>pix img ! y ! x\<close> is the pixel in column \<open>x\<close> of row \<open>y\<close>. The Python
  code mutates the image in place; here each operation returns the image it
  leaves behind.

  Two things these calls depend on are not in the program: whether the
  machine has the memory for a raster of a given size when the program asks
  for one, and whether the output path names a file that can be written. They
  are the environment \<open>env\<close>, a parameter of every function that reaches
  Pillow; the limits Pillow itself puts on the size of a raster are part of
  \<open>Image_new\<close>.
\<close>

record image =
  width :: nat
  height :: nat
  pix :: "rgb list list"

record env =
  can_alloc :: "nat \<Rightarrow> nat \<Rightarrow> bool"
    \<comment> \<open>the machine can allocate an \<open>RGB\<close> raster of this width and height\<close>
  can_write :: bool
    \<comment> \<open>the output directory can be created and the output path names a file
        that Pillow can write\<close>

definition INT_MAX :: int where
  "INT_MAX = 2147483647"

text \<open>
  \<open>Image.new('RGB', (w, h))\<close>: a black image. A negative side raises
  \<open>ValueError\<close>; a side that does not fit a C \<open>int\<close> raises \<open>OverflowError\<close>;
  a width above \<open>INT_MAX / 4 - 1\<close> raises \<open>MemoryError\<close> before anything is
  allocated (so also when the height is 0); and so does a raster the machine
  cannot allocate. \<open>can_create\<close> says that none of these happens.
\<close>

definition Image_new :: "env \<Rightarrow> int \<Rightarrow> int \<Rightarrow> error + image" where
  "Image_new e w h =
     (if w < 0 \<or> h < 0 then Inl ValueError_size
      else if INT_MAX < w \<or> INT_MAX < h then Inl OverflowError
      else if INT_MAX div 4 - 1 < w then Inl MemoryError
      else if \<not> can_alloc e (nat w) (nat h) then Inl MemoryError
      else Inr \<lparr>width = nat w, height = nat h,
                pix = replicate (nat h) (replicate (nat w) (0, 0, 0))\<rparr>)"

definition can_create :: "env \<Rightarrow> int \<Rightarrow> int \<Rightarrow> bool" where
  "can_create e w h \<longleftrightarrow>
     0 \<le> w \<and> 0 \<le> h \<and> w \<le> INT_MAX div 4 - 1 \<and> h \<le> INT_MAX \<and> can_alloc e (nat w) (nat h)"

text \<open>
  The colour of a pixel assignment goes through Pillow's \<open>getink\<close>: the red
  channel is read as a C \<open>long long\<close> and the green and blue channels as C
  \<open>int\<close>s (a value that does not fit raises \<open>OverflowError\<close>), and each channel
  is then clamped to \<open>0..255\<close> by the macro \<open>CLIP8\<close>, since an \<open>RGB\<close> raster
  stores 8 bits per channel.
\<close>

definition CLIP8 :: "int \<Rightarrow> int" where
  "CLIP8 v = (if v \<le> 0 then 0 else if v < 256 then v else 255)"

definition clip_rgb :: "rgb \<Rightarrow> rgb" where
  "clip_rgb color = (case color of (r, g, b) \<Rightarrow> (CLIP8 r, CLIP8 g, CLIP8 b))"

definition getink :: "rgb \<Rightarrow> error + rgb" where
  "getink color =
     (case color of (r, g, b) \<Rightarrow>
        if r < - (2 ^ 63) \<or> 2 ^ 63 \<le> r \<or> g < - (2 ^ 31) \<or> 2 ^ 31 \<le> g
           \<or> b < - (2 ^ 31) \<or> 2 ^ 31 \<le> b
        then Inl OverflowError
        else Inr (clip_rgb color))"

text \<open>\<open>pixels[x, y] = color\<close>: a negative coordinate has the side added, a
  coordinate outside the image raises \<open>IndexError\<close>, and the colour stored is
  the one \<open>getink\<close> makes of \<open>color\<close>. (\<open>create_tile_image\<close> reaches this
  assignment only with coordinates inside an image that \<open>Image.new\<close> has
  accepted, so with coordinates that fit a C \<open>int\<close>.)\<close>

definition putpixel :: "image \<Rightarrow> int \<Rightarrow> int \<Rightarrow> rgb \<Rightarrow> error + image" where
  "putpixel img x y color =
     (let x' = (if x < 0 then int (width img) + x else x);
          y' = (if y < 0 then int (height img) + y else y)
      in if x' < 0 \<or> int (width img) \<le> x' \<or> y' < 0 \<or> int (height img) \<le> y'
         then Inl IndexError
         else bind_err (getink color) (\<lambda>ink.
                Inr (img\<lparr>pix := (pix img)[nat y' := (pix img ! nat y')[nat x' := ink]]\<rparr>)))"

text \<open>\<open>sheet.paste(im, (x, y))\<close>: the pixels of \<open>im\<close> replace those of the
  sheet in the box whose top-left corner is \<open>(x, y)\<close>, clipped to the sheet.
  (Pillow reads the corner into C \<open>int\<close>s; \<open>create_sprite_sheet\<close> reaches this
  call only with a corner inside a sheet that \<open>Image.new\<close> has accepted, so with
  coordinates that fit.)\<close>

definition paste :: "image \<Rightarrow> image \<Rightarrow> int \<Rightarrow> int \<Rightarrow> image" where
  "paste sheet im x y =
     sheet\<lparr>pix :=
       map (\<lambda>py. map (\<lambda>px.
              (let sx = int px - x; sy = int py - y
               in if 0 \<le> sx \<and> sx < int (width im) \<and> 0 \<le> sy \<and> sy < int (height im)
                  then pix im ! nat sy ! nat sx
                  else pix sheet ! py ! px))
            [0..<width sheet])
         [0..<height sheet]\<rparr>"

text \<open>\<open>sheet.save(path)\<close> after \<open>mkdir\<close> of the output directory: it raises
  when the file cannot be written, and when the image has no pixels.\<close>

definition Image_save :: "env \<Rightarrow> image \<Rightarrow> error + unit" where
  "Image_save e img =
     (if \<not> can_write e then Inl OSError
      else if width img = 0 \<or> height img = 0 then Inl SaveError_empty
      else Inr ())"

text \<open>\<open>img.getpixel((x, y))\<close> for a position inside the image.\<close>

definition pixel :: "image \<Rightarrow> nat \<Rightarrow> nat \<Rightarrow> rgb" where
  "pixel img x y = pix img ! y ! x"

text \<open>\<open>a // b\<close> and \<open>a % b\<close> on Python integers round towards minus
  infinity, as \<open>div\<close> and \<open>mod\<close> on \<open>int\<close> do, and raise when \<open>b\<close> is 0.\<close>

definition py_floordiv :: "int \<Rightarrow> int \<Rightarrow> error + int" where
  "py_floordiv a b = (if b = 0 then Inl ZeroDivisionError else Inr (a div b))"

definition py_mod :: "int \<Rightarrow> int \<Rightarrow> error + int" where
  "py_mod a b = (if b = 0 then Inl ZeroDivisionError else Inr (a mod b))"

subsection \<open>Rasterizer and compositor\<close>

definition create_tile_image ::
  "env \<Rightarrow> int list list \<Rightarrow> rgb list \<Rightarrow> int \<Rightarrow> error + image" where
  "create_tile_image e tile_pixels palette scale =
     bind_err (Image_new e (8 * scale) (8 * scale)) (\<lambda>img.
       foldM (\<lambda>y. foldM (\<lambda>x img.
           bind_err (py_index tile_pixels (int y)) (\<lambda>tile_row.
           bind_err (py_index tile_row (int x)) (\<lambda>p.
           bind_err (py_index palette p) (\<lambda>color.
             foldM (\<lambda>dy. foldM (\<lambda>dx img.
                 putpixel img (int x * scale + int dx) (int y * scale + int dy) color)
               (py_range scale)) (py_range scale) img))))
         (py_range 8)) (py_range 8) img)"

definition create_sprite_sheet ::
  "env \<Rightarrow> byte list \<Rightarrow> rgb list \<Rightarrow> int \<Rightarrow> int \<Rightarrow> error + image" where
  "create_sprite_sheet e chr_data palette tiles_per_row scale =
     (let num_tiles = int (length chr_data) div 16
      in bind_err (py_floordiv (num_tiles + tiles_per_row - 1) tiles_per_row) (\<lambda>rows.
         let tile_size = 8 * scale;
             sheet_width = tiles_per_row * tile_size;
             sheet_height = rows * tile_size
         in bind_err (Image_new e sheet_width sheet_height) (\<lambda>sheet.
              foldM (\<lambda>tile_idx sheet.
                  bind_err (decode_tile chr_data (int tile_idx)) (\<lambda>tile_pixels.
                  bind_err (create_tile_image e tile_pixels palette scale) (\<lambda>tile_img.
                  bind_err (py_floordiv (int tile_idx) tiles_per_row) (\<lambda>row.
                  bind_err (py_mod (int tile_idx) tiles_per_row) (\<lambda>col.
                  let x = col * tile_size; y = row * tile_size
                  in Inr (paste sheet tile_img x y))))))
                (py_range num_tiles) sheet)))"

subsection \<open>The conversion command\<close>

text \<open>
  \<open>main\<close> of \<open>convert_chr_to_png.py\<close> from the point where the input file
  has been read and the arguments parsed: it truncates a buffer whose length
  is not a multiple of 16, printing a warning to \<open>stderr\<close>, resolves the
  palette, builds the sheet and saves it. The result is the list of warnings
  printed and the sheet written to the output file, or the exception that
  ended the run (then no file is left).
\<close>

datatype warning = Not_multiple_of_16 nat
  \<comment> \<open>\<open>Warning: CHR data length {len} is not a multiple of 16 bytes\<close>\<close>

definition main_convert ::
  "env \<Rightarrow> byte list \<Rightarrow> int list \<Rightarrow> int \<Rightarrow> int \<Rightarrow> warning list \<times> (error + image)" where
  "main_convert e file_data palette_indices tiles_per_row scale =
     (let (warnings, chr_data) =
            (if int (length file_data) mod 16 \<noteq> 0
             then ([Not_multiple_of_16 (length file_data)],
                   py_slice file_data 0
                     (int (length file_data) - int (length file_data) mod 16))
             else ([], file_data))
      in (warnings,
          bind_err (get_palette_colors palette_indices) (\<lambda>palette.
          bind_err (create_sprite_sheet e chr_data palette tiles_per_row scale) (\<lambda>sheet.
          bind_err (Image_save e sheet) (\<lambda>_. Inr sheet)))))"

subsection \<open>Colours and environments used in the statements\<close>

text \<open>An \<open>RGB\<close> colour proper: every channel in \<open>0..255\<close>, as the entries of
  \<open>NES_PALETTE\<close> are.\<close>

definition is_rgb :: "rgb \<Rightarrow> bool" where
  "is_rgb color = (case color of (r, g, b) \<Rightarrow>
     0 \<le> r \<and> r \<le> 255 \<and> 0 \<le> g \<and> g \<le> 255 \<and> 0 \<le> b \<and> b \<le> 255)"

text \<open>Pillow can create every raster \<open>create_sprite_sheet\<close> asks for: the
  sheet, of \<open>sheet_width\<close> by \<open>sheet_height\<close> pixels, and, when the buffer
  holds a complete tile, the raster of a tile.\<close>

definition sheet_fits :: "env \<Rightarrow> byte list \<Rightarrow> int \<Rightarrow> int \<Rightarrow> bool" where
  "sheet_fits e chr_data tiles_per_row scale \<longleftrightarrow>
     can_create e (tiles_per_row * (8 * scale))
       ((int (length chr_data) div 16 + tiles_per_row - 1) div tiles_per_row * (8 * scale))
     \<and> (16 \<le> length chr_data \<longrightarrow> can_create e (8 * scale) (8 * scale))"

text \<open>Two environments: one that refuses nothing, and a machine with room for
  rasters of up to \<open>2 ^ 24\<close> pixels.\<close>

definition plenty :: env where
  "plenty = \<lparr>can_alloc = (\<lambda>w h. True), can_write = True\<rparr>"

definition small_machine :: env where
  "small_machine = \<lparr>can_alloc = (\<lambda>w h. w * h \<le> 2 ^ 24), can_write = True\<rparr>"

subsection \<open>Nearest-neighbour downsampling\<close>

text \<open>
  The specification compares rasters of one tile at two scales by
  nearest-neighbour downsampling, which the tools do not implement. Downsampling
  by an integer factor \<open>k\<close> keeps one sample of every \<open>k \<times> k\<close> block; \<open>ox\<close> and
  \<open>oy\<close> say which one (Pillow's \<open>NEAREST\<close> filter takes the centre,
  \<open>ox = oy = k div 2\<close>).
\<close>

definition downsample_nearest :: "nat \<Rightarrow> nat \<Rightarrow> nat \<Rightarrow> image \<Rightarrow> image" where
  "downsample_nearest k ox oy img =
     \<lparr>width = width img div k, height = height img div k,
      pix = map (\<lambda>y. map (\<lambda>x. pixel img (k * x + ox) (k * y + oy)) [0..<width img div k])
              [0..<height img div k]\<rparr>"

subsection \<open>Well-formed rasters and painted regions\<close>

text \<open>
  A raster is well formed when it has \<open>height\<close> rows of \<open>width\<close> pixels each;
  every raster Pillow builds is. \<open>painted img0 img R col\<close> says that \<open>img\<close> is
  \<open>img0\<close> with the pixels of the region \<open>R\<close> repainted in the colours \<open>col\<close>:
  it is what a loop of pixel assignments or pastes has achieved so far.
\<close>

definition wf_image :: "image \<Rightarrow> bool" where
  "wf_image img \<longleftrightarrow>
     length (pix img) = height img \<and> (\<forall>y<height img. length (pix img ! y) = width img)"

definition painted ::
  "image \<Rightarrow> image \<Rightarrow> (nat \<Rightarrow> nat \<Rightarrow> bool) \<Rightarrow> (nat \<Rightarrow> nat \<Rightarrow> rgb) \<Rightarrow> bool" where
  "painted img0 img R col \<longleftrightarrow>
     wf_image img \<and> width img = width img0 \<and> height img = height img0 \<and>
     (\<forall>x<width img0. \<forall>y<height img0.
        pixel img x y = (if R x y then col x y else pixel img0 x y))"

text \<open>The grid \<open>decode_tile\<close> returns for tile \<open>i\<close> (empty if it raises).\<close>

definition tile_grid :: "byte list \<Rightarrow> nat \<Rightarrow> int list list" where
  "tile_grid chr_data i = (case decode_tile chr_data (int i) of Inr g \<Rightarrow> g | Inl e \<Rightarrow> [])"

section \<open>Properties of slicing, indexing and list loops\<close>

lemma mapM_total:
  assumes "\<And>x. x \<in> set xs \<Longrightarrow> f x = Inr (g x)"
  shows "mapM f xs = Inr (map g xs)"
  using assms by (induction xs) simp_all

lemma py_index_nat:
  "0 \<le> i \<Longrightarrow> i < int (length xs) \<Longrightarrow> py_index xs i = Inr (xs ! nat i)"
  by (simp add: py_index_def)

lemma py_slice_nat:
  "0 \<le> a \<Longrightarrow> 0 \<le> n \<Longrightarrow> a + n \<le> int (length xs) \<Longrightarrow>
   py_slice xs a (a + n) = take (nat n) (drop (nat a) xs)"
  by (simp add: py_slice_def py_slice_bound_def Let_def min_def nat_diff_distrib nat_add_distrib)

lemma py_range_8: "py_range 8 = [0..<8]"
  by (simp add: py_range_def)

lemma foldM_append:
  "foldM f (xs @ ys) s = bind_err (foldM f xs s) (foldM f ys)"
  by (induction xs arbitrary: s) (simp_all add: bind_err_def split: sum.splits)

lemma foldM_upt_inv:
  assumes base: "P 0 s"
    and step: "\<And>i t. i < n \<Longrightarrow> P i t \<Longrightarrow> \<exists>t'. f i t = Inr t' \<and> P (Suc i) t'"
  shows "\<exists>t. foldM f [0..<n] s = Inr t \<and> P n t"
proof -
  have "k \<le> n \<Longrightarrow> \<exists>t. foldM f [0..<k] s = Inr t \<and> P k t" for k
  proof (induction k)
    case 0
    then show ?case using base by simp
  next
    case (Suc k)
    then obtain t where t: "foldM f [0..<k] s = Inr t" "P k t" by auto
    from Suc.prems step [of k t] t(2) obtain t' where "f k t = Inr t'" "P (Suc k) t'" by auto
    then show ?case using t(1) by (simp add: foldM_append bind_err_def)
  qed
  then show ?thesis by simp
qed

lemma foldM_preserves:
  assumes "\<And>x s s'. f x s = Inr s' \<Longrightarrow> P s \<Longrightarrow> P s'"
  shows "P s \<Longrightarrow> foldM f xs s = Inr s' \<Longrightarrow> P s'"
proof (induction xs arbitrary: s)
  case Nil
  then show ?case by simp
next
  case (Cons x xs)
  then show ?case using assms by (auto split: sum.splits)
qed

lemma bind_err_InrD:
  "bind_err r f = Inr v \<Longrightarrow> \<exists>u. r = Inr u \<and> f u = Inr v"
  by (cases r) (simp_all add: bind_err_def)

lemma bind_err_Inr: "bind_err (Inr v) f = f v"
  by (simp add: bind_err_def)

section \<open>The ROM reader\<close>

text \<open>
  Claim C4, as amended. \<open>extract_chr\<close> raises if and only if
  \<open>address + size\<close> exceeds the length of the ROM, and the error then names
  the address, the size and the ROM size. When it does not raise and the
  address and the size are not negative, it returns exactly the bytes
  \<open>[address, address + size)\<close> of the ROM, \<open>size\<close> of them. The ROM is an
  immutable value, so it is unchanged.
\<close>

theorem extract_chr_in_range:
  "(\<exists>e. extract_chr rom_data address sz = Inl e)
     = (address + sz > int (length rom_data))
   \<and> (address + sz > int (length rom_data) \<longrightarrow>
        extract_chr rom_data address sz
          = Inl (ValueError_rom address sz (length rom_data)))
   \<and> (0 \<le> address \<and> 0 \<le> sz \<and> address + sz \<le> int (length rom_data) \<longrightarrow>
        extract_chr rom_data address sz
          = Inr (take (nat sz) (drop (nat address) rom_data))
        \<and> int (length (take (nat sz) (drop (nat address) rom_data))) = sz)"
  by (auto simp: extract_chr_def py_slice_nat)

theorem extract_chr_in_range_witness:
  "extract_chr [0x11, 0x22, 0x33, 0x44] 1 2 = Inr [0x22, 0x33]
   \<and> extract_chr [0x11, 0x22, 0x33, 0x44] 3 2 = Inl (ValueError_rom 3 2 4)"
  using extract_chr_in_range [of "[0x11, 0x22, 0x33, 0x44]" 1 2]
        extract_chr_in_range [of "[0x11, 0x22, 0x33, 0x44]" 3 2]
  by simp

text \<open>
  Claim C4 as it is stated, for every address and size, fails: at address
  \<open>-1\<close> and size 1 on a two-byte ROM the sum does not exceed the length, no
  error is raised, and the result is the empty slice \<open>rom_data[-1:0]\<close>, not
  one byte.
\<close>

theorem extract_chr_claimed_length_counterexample:
  "\<not> (- 1 + 1 > int (length [0x11, 0x22 :: byte]))
   \<and> extract_chr [0x11, 0x22] (- 1) 1 = Inr []
   \<and> int (length ([] :: byte list)) \<noteq> 1"
  by (simp add: extract_chr_def py_slice_def py_slice_bound_def)

text \<open>
  Claim C9. \<open>extract_chr\<close> does not reject a negative address. Whenever the
  address is negative, the size positive and \<open>0 \<le> address + size \<le> len\<close>, the
  bounds check passes, the call returns, and the result is shorter than
  \<open>size\<close> bytes; at address \<open>-1\<close> and size 1 the result is empty whatever the
  ROM.
\<close>

theorem extract_chr_negative_address:
  "(address < 0 \<and> 0 < sz \<and> 0 \<le> address + sz \<and> address + sz \<le> int (length rom_data) \<longrightarrow>
      (\<exists>r. extract_chr rom_data address sz = Inr r \<and> int (length r) < sz))
   \<and> extract_chr rom_data (- 1) 1 = Inr []"
  by (auto simp: extract_chr_def py_slice_def py_slice_bound_def Let_def min_def max_def)

theorem extract_chr_negative_address_witness:
  "\<exists>r. extract_chr [0x11, 0x22, 0x33] (- 2) 2 = Inr r \<and> int (length r) < 2"
  using extract_chr_negative_address [of "- 2" 2 "[0x11, 0x22, 0x33]"]
  by simp

section \<open>The palette resolver\<close>

lemma and_0x3f: "(i::int) AND 0x3f = i mod 64"
  using take_bit_eq_mask [of 6 i] take_bit_eq_mod [of 6 i]
  by (simp add: mask_eq_exp_minus_1)

lemma length_NES_PALETTE: "length NES_PALETTE = 64"
  by (simp add: NES_PALETTE_def)

lemma get_palette_colors_closed:
  "get_palette_colors xs = Inr (map (\<lambda>i. NES_PALETTE ! nat (i mod 64)) xs)"
  unfolding get_palette_colors_def
  by (rule mapM_total) (simp add: and_0x3f py_index_nat length_NES_PALETTE)

text \<open>
  Claim C3. For every list of integers \<open>get_palette_colors\<close> returns, without
  raising, the list whose \<open>k\<close>-th element is the entry of \<open>NES_PALETTE\<close> at the
  \<open>k\<close>-th index reduced modulo 64 (so of the same length and in the same
  order); index 64 resolves as index 0 and index 67 as index 3.
\<close>

theorem get_palette_colors_masks:
  "get_palette_colors palette_indices
     = Inr (map (\<lambda>i. NES_PALETTE ! nat (i mod 64)) palette_indices)
   \<and> get_palette_colors [64] = get_palette_colors [0]
   \<and> get_palette_colors [67] = get_palette_colors [3]"
  by (simp add: get_palette_colors_closed)

section \<open>The tile decoder\<close>

lemma drop_bit_and_1_int: "drop_bit n (k::int) AND 1 = of_bool (bit k n)"
  by (simp add: and_one_eq bit_iff_odd_drop_bit mod_2_eq_odd)

lemma decode_pixel_bits:
  "x < 8 \<Longrightarrow> decode_pixel (uint (l::byte)) (uint (h::byte)) x
     = push_bit 1 (of_bool (bit h (7 - x))) OR of_bool (bit l (7 - x))"
proof -
  assume "x < 8"
  then have b: "7 - x < LENGTH(8)" by simp
  have "bit (uint w) (7 - x) = bit w (7 - x)" for w :: byte
    using b by (simp only: bit_uint_iff simp_thms)
  then show ?thesis
    unfolding decode_pixel_def Let_def drop_bit_and_1_int by (simp only:)
qed

lemma pixel_value_range:
  "(push_bit 1 (of_bool a) OR of_bool b :: int) \<in> {0, 1, 2, 3}"
  by (cases a; cases b) simp_all

lemma decode_tile_closed:
  assumes "0 \<le> i" and "(i + 1) * 16 \<le> int (length buffer)"
  shows "decode_tile buffer i
    = Inr (map (\<lambda>y. decode_row (uint (buffer ! (nat i * 16 + y)))
                              (uint (buffer ! (nat i * 16 + 8 + y)))) [0..<8])"
proof -
  have lo: "py_slice buffer (i * 16) (i * 16 + 8) = take 8 (drop (nat i * 16) buffer)"
    using assms py_slice_nat [of "i * 16" 8 buffer] by (simp add: nat_mult_distrib)
  have hi: "py_slice buffer (i * 16 + 8) (i * 16 + 16) = take 8 (drop (nat i * 16 + 8) buffer)"
  proof -
    have "py_slice buffer (i * 16 + 8) ((i * 16 + 8) + 8)
        = take (nat 8) (drop (nat (i * 16 + 8)) buffer)"
      by (rule py_slice_nat) (use assms in simp_all)
    moreover have "nat (i * 16 + 8) = nat i * 16 + 8"
      using assms by (simp add: nat_add_distrib nat_mult_distrib)
    moreover have "(i * 16 + 8) + 8 = i * 16 + 16" by simp
    moreover have "nat 8 = 8" by simp
    ultimately show ?thesis by (simp only:)
  qed
  have len: "nat i * 16 + 16 \<le> length buffer"
  proof -
    have "int (nat i * 16 + 16) \<le> int (length buffer)" using assms by simp
    then show ?thesis by linarith
  qed
  show ?thesis
    unfolding decode_tile_def Let_def py_range_8
  proof (rule mapM_total)
    fix y :: nat assume "y \<in> set [0..<8]"
    then have y: "y < 8" by simp
    have a: "py_index (py_slice buffer (i * 16) (i * 16 + 8)) (int y)
          = Inr (buffer ! (nat i * 16 + y))"
      using y len by (simp add: lo py_index_nat)
    have b: "py_index (py_slice buffer (i * 16 + 8) (i * 16 + 16)) (int y)
          = Inr (buffer ! (nat i * 16 + 8 + y))"
      using y len hi by (simp add: py_index_nat)
    show "bind_err (py_index (py_slice buffer (i * 16) (i * 16 + 8)) (int y))
        (\<lambda>low_byte. bind_err (py_index (py_slice buffer (i * 16 + 8) (i * 16 + 16)) (int y))
           (\<lambda>high_byte. Inr (decode_row (uint low_byte) (uint high_byte))))
      = Inr (decode_row (uint (buffer ! (nat i * 16 + y)))
                        (uint (buffer ! (nat i * 16 + 8 + y))))"
      by (simp add: a b bind_err_def)
  qed
qed

text \<open>
  Claim C1. For every buffer and every (zero-based, so non-negative) tile
  index \<open>i\<close> with at least \<open>(i + 1) * 16\<close> bytes in the buffer, \<open>decode_tile\<close>
  returns an 8 by 8 grid whose cell in column \<open>x\<close> of row \<open>y\<close> is
  \<open>(high_bit << 1) | low_bit\<close>, where \<open>low_bit\<close> is bit \<open>7 - x\<close> of byte
  \<open>i * 16 + y\<close> and \<open>high_bit\<close> is bit \<open>7 - x\<close> of byte \<open>i * 16 + 8 + y\<close>; every
  cell is 0, 1, 2 or 3.
\<close>

theorem decode_tile_cells:
  assumes "0 \<le> i" and "(i + 1) * 16 \<le> int (length buffer)"
  shows "\<exists>grid. decode_tile buffer i = Inr grid \<and> length grid = 8 \<and>
     (\<forall>y<8. length (grid ! y) = 8 \<and>
        (\<forall>x<8. (let low_bit = of_bool (bit (buffer ! (nat i * 16 + y)) (7 - x));
                     high_bit = of_bool (bit (buffer ! (nat i * 16 + 8 + y)) (7 - x))
                 in grid ! y ! x = push_bit 1 high_bit OR low_bit)
               \<and> grid ! y ! x \<in> {0, 1, 2, 3}))"
proof -
  define grid where "grid = map (\<lambda>y. decode_row (uint (buffer ! (nat i * 16 + y)))
                              (uint (buffer ! (nat i * 16 + 8 + y)))) [0..<8]"
  have row: "grid ! y = decode_row (uint (buffer ! (nat i * 16 + y)))
                              (uint (buffer ! (nat i * 16 + 8 + y)))" if "y < 8" for y
    using that by (simp add: grid_def)
  have cell: "grid ! y ! x = push_bit 1 (of_bool (bit (buffer ! (nat i * 16 + 8 + y)) (7 - x)))
                  OR of_bool (bit (buffer ! (nat i * 16 + y)) (7 - x))"
    if "y < 8" "x < 8" for x y
    using that by (simp only: row decode_row_def py_range_8 decode_pixel_bits [symmetric]) simp
  have "decode_tile buffer i = Inr grid"
    by (simp only: decode_tile_closed [OF assms] grid_def)
  moreover have "length grid = 8" by (simp add: grid_def)
  moreover have "length (grid ! y) = 8" if "y < 8" for y
    using that by (simp add: row decode_row_def py_range_8)
  moreover have "grid ! y ! x \<in> {0, 1, 2, 3}" if "y < 8" "x < 8" for x y
    using that pixel_value_range by (simp only: cell)
  ultimately show ?thesis
    unfolding Let_def using cell by blast
qed

theorem decode_tile_cells_witness:
  "\<exists>grid. decode_tile (replicate 32 0xff) 1 = Inr grid \<and> length grid = 8 \<and>
     (\<forall>y<8. length (grid ! y) = 8 \<and> (\<forall>x<8. grid ! y ! x \<in> {0, 1, 2, 3}))"
proof -
  have h1: "(0::int) \<le> 1" by simp
  have h2: "((1::int) + 1) * 16 \<le> int (length (replicate 32 (0xff :: byte)))" by simp
  from decode_tile_cells [OF h1 h2] show ?thesis by blast
qed

text \<open>
  Claim C2, as amended. For a 16-byte tile record whose low-plane byte of
  row 0 is \<open>0b10000000\<close> and whose high-plane byte of row 0 is \<open>0b00000000\<close>,
  row 0 of the decoded grid is \<open>[1,0,0,0,0,0,0,0]\<close>: the leftmost pixel has
  low bit 1 and high bit 0.
\<close>

theorem decode_tile_row0:
  assumes "length tile = 16" and "tile ! 0 = 0x80" and "tile ! 8 = 0x00"
  shows "\<exists>grid. decode_tile tile 0 = Inr grid \<and> grid ! 0 = [1, 0, 0, 0, 0, 0, 0, 0]"
proof -
  have "decode_row (uint (0x80 :: byte)) (uint (0x00 :: byte)) = [1, 0, 0, 0, 0, 0, 0, 0]"
    by code_simp
  then show ?thesis
    using assms decode_tile_closed [of 0 tile] by simp
qed

theorem decode_tile_row0_witness:
  "\<exists>grid. decode_tile (0x80 # replicate 15 0x00) 0 = Inr grid
     \<and> grid ! 0 = [1, 0, 0, 0, 0, 0, 0, 0]"
  using decode_tile_row0 [of "0x80 # replicate 15 0x00"] by simp

text \<open>
  Claim C2 as it is stated fails: for the record with low-plane byte
  \<open>0b10000000\<close> in row 0 and every other byte 0, row 0 of the decoded grid is
  \<open>[1,0,0,0,0,0,0,0]\<close>, not \<open>[2,0,0,0,0,0,0,0]\<close>.
\<close>

theorem decode_tile_row0_counterexample:
  "decode_tile [0x80, 0, 0, 0, 0, 0, 0, 0, 0, 0, 0, 0, 0, 0, 0, 0] 0
     = Inr ([1, 0, 0, 0, 0, 0, 0, 0] # replicate 7 [0, 0, 0, 0, 0, 0, 0, 0])
   \<and> ([1, 0, 0, 0, 0, 0, 0, 0] # replicate 7 [0, 0, 0, 0, 0, 0, 0, 0]) ! 0
       \<noteq> [2, 0, 0, 0, 0, 0, 0, 0 :: int]"
proof -
  have "decode_tile [0x80, 0, 0, 0, 0, 0, 0, 0, 0, 0, 0, 0, 0, 0, 0, 0] 0
     = Inr ([1, 0, 0, 0, 0, 0, 0, 0] # replicate 7 [0, 0, 0, 0, 0, 0, 0, 0])"
    by code_simp
  then show ?thesis by simp
qed


subsection \<open>The grid of a complete tile\<close>

lemma decode_pixel_range: "0 \<le> decode_pixel l h x \<and> decode_pixel l h x \<le> 3"
proof -
  have "decode_pixel l h x \<in> {0, 1, 2, 3}"
    unfolding decode_pixel_def Let_def drop_bit_and_1_int by (rule pixel_value_range)
  then show ?thesis by auto
qed

lemma tile_grid_closed:
  assumes "i < length d div 16"
  shows "tile_grid d i = map (\<lambda>y. decode_row (uint (d ! (i * 16 + y)))
                              (uint (d ! (i * 16 + 8 + y)))) [0..<8]"
proof -
  have "(i + 1) * 16 \<le> length d" using assms by simp
  then have "int ((i + 1) * 16) \<le> int (length d)" by (simp only: of_nat_le_iff)
  then have b: "(int i + 1) * 16 \<le> int (length d)" by simp
  have "decode_tile d (int i)
    = Inr (map (\<lambda>y. decode_row (uint (d ! (nat (int i) * 16 + y)))
                              (uint (d ! (nat (int i) * 16 + 8 + y)))) [0..<8])"
    by (rule decode_tile_closed [OF _ b]) simp
  then show ?thesis by (simp add: tile_grid_def)
qed

lemma tile_grid_ok:
  assumes "i < length d div 16"
  shows "decode_tile d (int i) = Inr (tile_grid d i)"
    and "length (tile_grid d i) = 8"
    and "\<And>y. y < 8 \<Longrightarrow> length (tile_grid d i ! y) = 8"
    and "\<And>x y. x < 8 \<Longrightarrow> y < 8 \<Longrightarrow> 0 \<le> tile_grid d i ! y ! x \<and> tile_grid d i ! y ! x \<le> 3"
proof -
  have "(i + 1) * 16 \<le> length d" using assms by simp
  then have "int ((i + 1) * 16) \<le> int (length d)" by (simp only: of_nat_le_iff)
  then have b: "(int i + 1) * 16 \<le> int (length d)" by simp
  have "\<exists>g. decode_tile d (int i) = Inr g"
    using decode_tile_closed [OF _ b] by simp
  then show "decode_tile d (int i) = Inr (tile_grid d i)"
    by (auto simp: tile_grid_def)
  note g = tile_grid_closed [OF assms]
  show "length (tile_grid d i) = 8" by (simp add: g)
  show "length (tile_grid d i ! y) = 8" if "y < 8" for y
    using that by (simp add: g decode_row_def py_range_8)
  show "0 \<le> tile_grid d i ! y ! x \<and> tile_grid d i ! y ! x \<le> 3" if "x < 8" "y < 8" for x y
    using that decode_pixel_range by (simp add: g decode_row_def py_range_8)
qed

lemma tile_grid_take:
  assumes "i < length d div 16"
  shows "tile_grid (take (16 * (length d div 16)) d) i = tile_grid d i"
proof -
  define n where "n = length d div 16"
  have le: "16 * n \<le> length d" by (simp add: n_def)
  then have len: "length (take (16 * n) d) div 16 = n" by simp
  have i: "i < n" using assms by (simp add: n_def)
  have "take (16 * n) d ! (i * 16 + y) = d ! (i * 16 + y)"
       "take (16 * n) d ! (i * 16 + 8 + y) = d ! (i * 16 + 8 + y)" if "y < 8" for y
    using that i by simp_all
  then have "map (\<lambda>y. decode_row (uint (take (16 * n) d ! (i * 16 + y)))
                              (uint (take (16 * n) d ! (i * 16 + 8 + y)))) [0..<8]
      = map (\<lambda>y. decode_row (uint (d ! (i * 16 + y))) (uint (d ! (i * 16 + 8 + y)))) [0..<8]"
    by simp
  moreover have "i < length (take (16 * n) d) div 16" using i len by simp
  ultimately show ?thesis
    using tile_grid_closed [of i "take (16 * n) d"] tile_grid_closed [OF assms]
    unfolding n_def by simp
qed


section \<open>Rasters\<close>

lemma foldM_painted:
  assumes step: "\<And>i img1. i < n \<Longrightarrow> wf_image img1 \<Longrightarrow> width img1 = width img
                  \<Longrightarrow> height img1 = height img
                  \<Longrightarrow> \<exists>img2. f i img1 = Inr img2 \<and> painted img1 img2 (S i) col"
    and wf: "wf_image img"
  shows "\<exists>img'. foldM f [0..<n] img = Inr img' \<and> painted img img' (\<lambda>x y. \<exists>i<n. S i x y) col"
proof (rule foldM_upt_inv [where P = "\<lambda>k t. painted img t (\<lambda>x y. \<exists>i<k. S i x y) col"])
  show "painted img img (\<lambda>x y. \<exists>i<0. S i x y) col"
    using wf by (simp add: painted_def)
next
  fix i t assume i: "i < n" and inv: "painted img t (\<lambda>x y. \<exists>j<i. S j x y) col"
  then have "wf_image t" "width t = width img" "height t = height img"
    by (simp_all add: painted_def)
  from step [OF i this] obtain t' where t': "f i t = Inr t'" "painted t t' (S i) col" by auto
  have "painted img t' (\<lambda>x y. \<exists>j<Suc i. S j x y) col"
    using inv t'(2) unfolding painted_def less_Suc_eq by auto
  with t'(1) show "\<exists>t'. f i t = Inr t' \<and> painted img t' (\<lambda>x y. \<exists>j<Suc i. S j x y) col"
    by blast
qed

lemma Image_new_Inr_iff:
  "Image_new e w h = Inr img \<longleftrightarrow>
     can_create e w h \<and>
     img = \<lparr>width = nat w, height = nat h,
            pix = replicate (nat h) (replicate (nat w) (0, 0, 0))\<rparr>"
  by (auto simp: Image_new_def can_create_def)

lemma Image_new_ok:
  assumes "can_create e w h"
  shows "\<exists>img. Image_new e w h = Inr img \<and> wf_image img \<and> width img = nat w \<and> height img = nat h
       \<and> (\<forall>x<nat w. \<forall>y<nat h. pixel img x y = (0, 0, 0))"
  using assms by (simp add: Image_new_Inr_iff wf_image_def pixel_def)

lemma getink_rgb: "is_rgb c \<Longrightarrow> getink c = Inr c"
  by (cases c) (simp add: is_rgb_def getink_def clip_rgb_def CLIP8_def)

lemma putpixel_painted:
  assumes "wf_image img" "X < width img" "Y < height img" "getink c = Inr c'" "col X Y = c'"
  shows "\<exists>img'. putpixel img (int X) (int Y) c = Inr img'
           \<and> painted img img' (\<lambda>x y. x = X \<and> y = Y) col"
  using assms
  by (auto simp: putpixel_def bind_err_def painted_def wf_image_def pixel_def nth_list_update)

lemma Image_new_nat:
  assumes "can_create e (int w) (int h)"
  shows "\<exists>img. Image_new e (int w) (int h) = Inr img \<and> wf_image img
       \<and> width img = w \<and> height img = h
       \<and> (\<forall>x<w. \<forall>y<h. pixel img x y = (0, 0, 0))"
  using Image_new_ok [OF assms] by simp

lemma paste_painted:
  assumes col: "\<And>a b. a < width im \<Longrightarrow> b < height im \<Longrightarrow> col (X + a) (Y + b) = pixel im a b"
  shows "painted sheet (paste sheet im (int X) (int Y))
           (\<lambda>px py. X \<le> px \<and> px < X + width im \<and> Y \<le> py \<and> py < Y + height im) col"
proof -
  have "col px py = pix im ! (py - Y) ! (px - X)"
    if "X \<le> px" "px < X + width im" "Y \<le> py" "py < Y + height im" for px py
    using col [of "px - X" "py - Y"] that by (simp add: pixel_def)
  then show ?thesis
    unfolding painted_def paste_def wf_image_def pixel_def Let_def
    by (auto simp: nat_diff_distrib)
qed

lemma image_eqI:
  fixes a b :: image
  assumes "wf_image a" "wf_image b" "width a = width b" "height a = height b"
    and "\<And>x y. x < width a \<Longrightarrow> y < height a \<Longrightarrow> pixel a x y = pixel b x y"
  shows "a = b"
proof -
  have "pix a = pix b"
  proof (rule nth_equalityI)
    show "length (pix a) = length (pix b)" using assms(1-4) by (simp add: wf_image_def)
  next
    fix y assume "y < length (pix a)"
    then have y: "y < height a" using assms(1) by (simp add: wf_image_def)
    show "pix a ! y = pix b ! y"
    proof (rule nth_equalityI)
      show "length (pix a ! y) = length (pix b ! y)"
        using assms(1-4) y by (simp add: wf_image_def)
    next
      fix x assume "x < length (pix a ! y)"
      then have "x < width a" using assms(1) y by (simp add: wf_image_def)
      from assms(5) [OF this y] show "pix a ! y ! x = pix b ! y ! x" by (simp add: pixel_def)
    qed
  qed
  then show ?thesis using assms(3,4) by simp
qed


section \<open>The tile rasterizer\<close>

lemma fill_block:
  assumes wf: "wf_image img" and s: "0 < s"
    and bx: "cx * nat s + nat s \<le> width img" and "by": "cy * nat s + nat s \<le> height img"
    and ink: "getink c = Inr c'"
    and col: "\<And>dx dy. dx < nat s \<Longrightarrow> dy < nat s \<Longrightarrow> col (cx * nat s + dx) (cy * nat s + dy) = c'"
  shows "\<exists>img'. foldM (\<lambda>dy. foldM (\<lambda>dx img.
                 putpixel img (int cx * s + int dx) (int cy * s + int dy) c)
               (py_range s)) (py_range s) img = Inr img'
          \<and> painted img img'
               (\<lambda>x y. \<exists>dy<nat s. \<exists>dx<nat s. x = cx * nat s + dx \<and> y = cy * nat s + dy) col"
  unfolding py_range_def
proof (rule foldM_painted [OF _ wf])
  fix dy img1
  assume dy: "dy < nat s" and wf1: "wf_image img1"
    and w1: "width img1 = width img" and h1: "height img1 = height img"
  show "\<exists>img2. foldM (\<lambda>dx img. putpixel img (int cx * s + int dx) (int cy * s + int dy) c)
                  [0..<nat s] img1 = Inr img2
          \<and> painted img1 img2 (\<lambda>x y. \<exists>dx<nat s. x = cx * nat s + dx \<and> y = cy * nat s + dy) col"
  proof (rule foldM_painted [OF _ wf1])
    fix dx img2
    assume dx: "dx < nat s" and wf2: "wf_image img2"
      and w2: "width img2 = width img1" and h2: "height img2 = height img1"
    have X: "int cx * s + int dx = int (cx * nat s + dx)" using s by simp
    have Y: "int cy * s + int dy = int (cy * nat s + dy)" using s by simp
    have "cx * nat s + dx < width img2" using dx bx w1 w2 by simp
    moreover have "cy * nat s + dy < height img2" using dy "by" h1 h2 by simp
    ultimately show "\<exists>img3. putpixel img2 (int cx * s + int dx) (int cy * s + int dy) c = Inr img3
        \<and> painted img2 img3 (\<lambda>x y. x = cx * nat s + dx \<and> y = cy * nat s + dy) col"
      unfolding X Y using wf2 ink col [OF dx dy] by (intro putpixel_painted)
  qed
qed

lemma create_tile_image_closed:
  assumes len: "length grid = 8"
    and rows: "\<And>y. y < 8 \<Longrightarrow> length (grid ! y) = 8"
    and cells: "\<And>x y. x < 8 \<Longrightarrow> y < 8 \<Longrightarrow> 0 \<le> grid ! y ! x \<and> grid ! y ! x < int (length palette)"
    and inks: "\<And>x y. x < 8 \<Longrightarrow> y < 8 \<Longrightarrow>
                 getink (palette ! nat (grid ! y ! x)) = Inr (clip_rgb (palette ! nat (grid ! y ! x)))"
    and s: "1 \<le> scale"
    and room: "can_create e (8 * scale) (8 * scale)"
  shows "\<exists>img. create_tile_image e grid palette scale = Inr img \<and> wf_image img
          \<and> width img = 8 * nat scale \<and> height img = 8 * nat scale
          \<and> (\<forall>X<8 * nat scale. \<forall>Y<8 * nat scale.
                pixel img X Y
                  = clip_rgb (palette ! nat (grid ! (Y div nat scale) ! (X div nat scale))))"
proof -
  define n where "n = nat scale"
  have n: "0 < n" "int n = scale" using s by (simp_all add: n_def)
  define col where "col = (\<lambda>X Y. clip_rgb (palette ! nat (grid ! (Y div n) ! (X div n))))"
  have colc: "col (x * n + dx) (y * n + dy) = clip_rgb (palette ! nat (grid ! y ! x))"
    if "dx < n" "dy < n" for x y dx dy
    using that by (simp add: col_def)
  from Image_new_ok [OF room] s obtain img0 where
    img0: "Image_new e (8 * scale) (8 * scale) = Inr img0" "wf_image img0"
      "width img0 = 8 * n" "height img0 = 8 * n"
    by (auto simp: n_def nat_mult_distrib)
  let ?body = "\<lambda>y x img.
           bind_err (py_index grid (int y)) (\<lambda>tile_row.
           bind_err (py_index tile_row (int x)) (\<lambda>p.
           bind_err (py_index palette p) (\<lambda>color.
             foldM (\<lambda>dy. foldM (\<lambda>dx img.
                 putpixel img (int x * scale + int dx) (int y * scale + int dy) color)
               (py_range scale)) (py_range scale) img)))"
  have "\<exists>img. foldM (\<lambda>y. foldM (?body y) [0..<8]) [0..<8] img0 = Inr img
      \<and> painted img0 img (\<lambda>X Y. \<exists>y<8. \<exists>x<8. \<exists>dy<n. \<exists>dx<n. X = x * n + dx \<and> Y = y * n + dy) col"
  proof (rule foldM_painted [OF _ img0(2)])
    fix y img1
    assume y: "y < (8::nat)" and wf1: "wf_image img1"
      and w1: "width img1 = width img0" and h1: "height img1 = height img0"
    show "\<exists>img2. foldM (?body y) [0..<8] img1 = Inr img2
        \<and> painted img1 img2 (\<lambda>X Y. \<exists>x<8. \<exists>dy<n. \<exists>dx<n. X = x * n + dx \<and> Y = y * n + dy) col"
    proof (rule foldM_painted [OF _ wf1])
      fix x img2
      assume x: "x < (8::nat)" and wf2: "wf_image img2"
        and w2: "width img2 = width img1" and h2: "height img2 = height img1"
      have body: "?body y x img2 = foldM (\<lambda>dy. foldM (\<lambda>dx img.
                 putpixel img (int x * scale + int dx) (int y * scale + int dy)
                   (palette ! nat (grid ! y ! x)))
               (py_range scale)) (py_range scale) img2"
        using x y len rows [OF y] cells [OF x y]
        by (simp add: py_index_nat bind_err_def)
      have bx: "x * nat scale + nat scale \<le> width img2"
      proof -
        have "(x + 1) * n \<le> 8 * n" using x by (intro mult_right_mono) simp_all
        then show ?thesis using w2 w1 img0(3) by (simp add: n_def)
      qed
      have "by": "y * nat scale + nat scale \<le> height img2"
      proof -
        have "(y + 1) * n \<le> 8 * n" using y by (intro mult_right_mono) simp_all
        then show ?thesis using h2 h1 img0(4) by (simp add: n_def)
      qed
      have "0 < scale" using s by simp
      from fill_block [OF wf2 this bx "by" inks [OF x y], of col] colc
      show "\<exists>img3. ?body y x img2 = Inr img3
          \<and> painted img2 img3 (\<lambda>X Y. \<exists>dy<n. \<exists>dx<n. X = x * n + dx \<and> Y = y * n + dy) col"
        unfolding body n_def by simp
    qed
  qed
  then obtain img where img: "foldM (\<lambda>y. foldM (?body y) [0..<8]) [0..<8] img0 = Inr img"
    and p: "painted img0 img (\<lambda>X Y. \<exists>y<8. \<exists>x<8. \<exists>dy<n. \<exists>dx<n. X = x * n + dx \<and> Y = y * n + dy) col"
    by blast
  have res: "create_tile_image e grid palette scale = Inr img"
    by (simp only: create_tile_image_def img0(1) bind_err_Inr py_range_8 img)
  have pix: "pixel img X Y = col X Y" if "X < 8 * n" "Y < 8 * n" for X Y
  proof -
    have "X div n < 8" "Y div n < 8" using that n(1) by (simp_all add: less_mult_imp_div_less mult.commute)
    moreover have "X mod n < n" "Y mod n < n" using n(1) by simp_all
    moreover have "X = (X div n) * n + X mod n" "Y = (Y div n) * n + Y mod n" by simp_all
    ultimately have "\<exists>y<8. \<exists>x<8. \<exists>dy<n. \<exists>dx<n. X = x * n + dx \<and> Y = y * n + dy" by blast
    then show ?thesis using p that img0(3,4) unfolding painted_def by simp
  qed
  show ?thesis
    using res p pix img0(3,4) unfolding painted_def col_def n_def by auto
qed

lemma create_tile_image_InrD:
  "create_tile_image e grid palette scale = Inr img \<Longrightarrow> can_create e (8 * scale) (8 * scale)"
  unfolding create_tile_image_def
  by (auto dest!: bind_err_InrD simp: Image_new_Inr_iff)

lemma create_tile_image_rgb:
  assumes len: "length grid = 8"
    and rows: "\<And>y. y < 8 \<Longrightarrow> length (grid ! y) = 8"
    and cells: "\<And>x y. x < 8 \<Longrightarrow> y < 8 \<Longrightarrow> 0 \<le> grid ! y ! x \<and> grid ! y ! x < int (length palette)"
    and pal: "\<And>c. c \<in> set palette \<Longrightarrow> is_rgb c"
    and s: "1 \<le> scale"
    and room: "can_create e (8 * scale) (8 * scale)"
  shows "\<exists>img. create_tile_image e grid palette scale = Inr img \<and> wf_image img
          \<and> width img = 8 * nat scale \<and> height img = 8 * nat scale
          \<and> (\<forall>X<8 * nat scale. \<forall>Y<8 * nat scale.
                pixel img X Y = palette ! nat (grid ! (Y div nat scale) ! (X div nat scale)))"
proof -
  have c: "is_rgb (palette ! nat (grid ! y ! x))" if "x < 8" "y < 8" for x y
    using cells [OF that] by (intro pal nth_mem) (simp add: nat_less_iff)
  have inks: "getink (palette ! nat (grid ! y ! x)) = Inr (clip_rgb (palette ! nat (grid ! y ! x)))"
    if "x < 8" "y < 8" for x y
    using c [OF that] by (cases "palette ! nat (grid ! y ! x)") (simp add: is_rgb_def getink_def)
  have clip: "clip_rgb (palette ! nat (grid ! y ! x)) = palette ! nat (grid ! y ! x)"
    if "x < 8" "y < 8" for x y
    using c [OF that]
    by (cases "palette ! nat (grid ! y ! x)") (simp add: is_rgb_def clip_rgb_def CLIP8_def)
  from create_tile_image_closed [OF len rows cells inks s room] obtain img where
    img: "create_tile_image e grid palette scale = Inr img" "wf_image img"
      "width img = 8 * nat scale" "height img = 8 * nat scale"
      "\<And>X Y. X < 8 * nat scale \<Longrightarrow> Y < 8 * nat scale \<Longrightarrow>
         pixel img X Y = clip_rgb (palette ! nat (grid ! (Y div nat scale) ! (X div nat scale)))"
    by blast
  have "pixel img X Y = palette ! nat (grid ! (Y div nat scale) ! (X div nat scale))"
    if "X < 8 * nat scale" "Y < 8 * nat scale" for X Y
  proof -
    have n: "0 < nat scale" using s by simp
    have "X div nat scale < 8" "Y div nat scale < 8"
      using that n by (simp_all add: less_mult_imp_div_less mult.commute)
    from clip [OF this] img(5) [OF that] show ?thesis by simp
  qed
  then show ?thesis using img(1-4) by blast
qed

text \<open>
  Claim C8, as amended. For every 8 by 8 grid of colour indices 0..3, every
  palette of four \<open>RGB\<close> colours (channels in \<open>0..255\<close>) and every scale of at
  least 1: when Pillow can create a raster of \<open>8 * scale\<close> by \<open>8 * scale\<close>
  pixels, \<open>create_tile_image\<close> returns one whose pixel at
  \<open>(x * scale + dx, y * scale + dy)\<close> is \<open>palette[grid[y][x]]\<close> for all
  \<open>dx, dy < scale\<close>, so every \<open>scale \<times> scale\<close> block is one solid colour;
  when Pillow cannot, it raises. Where the rasters of scale 3 and of scale 1
  can be created, downsampling the first by 3, whichever sample of each block
  is kept, gives exactly the second.
\<close>

theorem create_tile_image_blocks:
  assumes "length grid = 8"
    and "\<forall>y<8. length (grid ! y) = 8 \<and> (\<forall>x<8. grid ! y ! x \<in> {0, 1, 2, 3})"
    and "length palette = 4"
    and "\<forall>c\<in>set palette. is_rgb c"
    and "1 \<le> scale"
  shows "(can_create e (8 * scale) (8 * scale) \<longrightarrow>
           (\<exists>img. create_tile_image e grid palette scale = Inr img
              \<and> int (width img) = 8 * scale \<and> int (height img) = 8 * scale
              \<and> (\<forall>x<8. \<forall>y<8. \<forall>dx<nat scale. \<forall>dy<nat scale.
                    pixel img (x * nat scale + dx) (y * nat scale + dy)
                      = palette ! nat (grid ! y ! x))))
       \<and> (\<not> can_create e (8 * scale) (8 * scale) \<longrightarrow>
           (\<exists>err. create_tile_image e grid palette scale = Inl err))
       \<and> (can_create e 24 24 \<and> can_create e 8 8 \<longrightarrow>
           (\<exists>img3 img1. create_tile_image e grid palette 3 = Inr img3
              \<and> create_tile_image e grid palette 1 = Inr img1
              \<and> (\<forall>ox<3. \<forall>oy<3. downsample_nearest 3 ox oy img3 = img1)))"
proof -
  have rows: "length (grid ! y) = 8" if "y < 8" for y using assms(2) that by simp
  have cells: "0 \<le> grid ! y ! x \<and> grid ! y ! x < int (length palette)"
    if "x < 8" "y < 8" for x y
    using assms(2,3) that by fastforce
  have pal: "is_rgb c" if "c \<in> set palette" for c using assms(4) that by blast
  have closed: "\<exists>img. create_tile_image e grid palette sc = Inr img \<and> wf_image img
          \<and> width img = 8 * nat sc \<and> height img = 8 * nat sc
          \<and> (\<forall>X<8 * nat sc. \<forall>Y<8 * nat sc.
                pixel img X Y = palette ! nat (grid ! (Y div nat sc) ! (X div nat sc)))"
    if "1 \<le> sc" "can_create e (8 * sc) (8 * sc)" for sc
    by (rule create_tile_image_rgb) (use assms(1) rows cells pal that in blast)+
  have first: "\<exists>img. create_tile_image e grid palette scale = Inr img
            \<and> int (width img) = 8 * scale \<and> int (height img) = 8 * scale
            \<and> (\<forall>x<8. \<forall>y<8. \<forall>dx<nat scale. \<forall>dy<nat scale.
                  pixel img (x * nat scale + dx) (y * nat scale + dy)
                    = palette ! nat (grid ! y ! x))"
    if room: "can_create e (8 * scale) (8 * scale)"
  proof -
    from closed [OF assms(5) room] obtain img where
      img: "create_tile_image e grid palette scale = Inr img"
        "width img = 8 * nat scale" "height img = 8 * nat scale"
        "\<And>X Y. X < 8 * nat scale \<Longrightarrow> Y < 8 * nat scale \<Longrightarrow>
           pixel img X Y = palette ! nat (grid ! (Y div nat scale) ! (X div nat scale))"
      by blast
    have "pixel img (x * nat scale + dx) (y * nat scale + dy) = palette ! nat (grid ! y ! x)"
      if "x < 8" "y < 8" "dx < nat scale" "dy < nat scale" for x y dx dy
    proof -
      have "x * nat scale + dx < (x + 1) * nat scale" using that(3) by simp
      also have "(x + 1) * nat scale \<le> 8 * nat scale"
        using that(1) by (intro mult_right_mono) simp_all
      finally have X: "x * nat scale + dx < 8 * nat scale" .
      have "y * nat scale + dy < (y + 1) * nat scale" using that(4) by simp
      also have "(y + 1) * nat scale \<le> 8 * nat scale"
        using that(2) by (intro mult_right_mono) simp_all
      finally have Y: "y * nat scale + dy < 8 * nat scale" .
      from img(4) [OF X Y] show ?thesis using that(3,4) by simp
    qed
    then show ?thesis using img(1-3) assms(5) by auto
  qed
  have none: "\<exists>err. create_tile_image e grid palette scale = Inl err"
    if "\<not> can_create e (8 * scale) (8 * scale)"
    using that create_tile_image_InrD [of e grid palette scale]
    by (cases "create_tile_image e grid palette scale") auto
  have second: "\<exists>img3 img1. create_tile_image e grid palette 3 = Inr img3
            \<and> create_tile_image e grid palette 1 = Inr img1
            \<and> (\<forall>ox<3. \<forall>oy<3. downsample_nearest 3 ox oy img3 = img1)"
    if room: "can_create e 24 24" "can_create e 8 8"
  proof -
    from closed [of 3] room(1) obtain img3 where
      img3: "create_tile_image e grid palette 3 = Inr img3" "wf_image img3"
        "width img3 = 24" "height img3 = 24"
        "\<And>X Y. X < 24 \<Longrightarrow> Y < 24 \<Longrightarrow> pixel img3 X Y = palette ! nat (grid ! (Y div 3) ! (X div 3))"
      by auto
    from closed [of 1] room(2) obtain img1 where
      img1: "create_tile_image e grid palette 1 = Inr img1" "wf_image img1"
        "width img1 = 8" "height img1 = 8"
        "\<And>X Y. X < 8 \<Longrightarrow> Y < 8 \<Longrightarrow> pixel img1 X Y = palette ! nat (grid ! Y ! X)"
      by auto
    have "downsample_nearest 3 ox oy img3 = img1" if o: "ox < 3" "oy < 3" for ox oy
    proof (rule image_eqI)
      show "wf_image (downsample_nearest 3 ox oy img3)"
        by (simp add: downsample_nearest_def wf_image_def)
      show "wf_image img1" by (rule img1(2))
      show "width (downsample_nearest 3 ox oy img3) = width img1"
        by (simp add: downsample_nearest_def img3(3) img1(3))
      show "height (downsample_nearest 3 ox oy img3) = height img1"
        by (simp add: downsample_nearest_def img3(4) img1(4))
    next
      fix x y
      assume "x < width (downsample_nearest 3 ox oy img3)"
        and "y < height (downsample_nearest 3 ox oy img3)"
      then have xy: "x < 8" "y < 8" by (simp_all add: downsample_nearest_def img3(3,4))
      then have b: "3 * x + ox < 24" "3 * y + oy < 24" using o by simp_all
      have "pixel (downsample_nearest 3 ox oy img3) x y = pixel img3 (3 * x + ox) (3 * y + oy)"
        using xy by (simp add: downsample_nearest_def pixel_def img3(3,4))
      also have "\<dots> = palette ! nat (grid ! y ! x)"
        using img3(5) [OF b] o by simp
      finally show "pixel (downsample_nearest 3 ox oy img3) x y = pixel img1 x y"
        using img1(5) [OF xy] by simp
    qed
    then show ?thesis using img3(1) img1(1) by blast
  qed
  show ?thesis using first none second by blast
qed

theorem create_tile_image_blocks_witness:
  "(\<exists>img. create_tile_image small_machine (replicate 8 (replicate 8 2))
             [(0, 0, 0), (85, 85, 85), (170, 170, 170), (255, 255, 255)] 2 = Inr img
        \<and> int (width img) = 16 \<and> int (height img) = 16
        \<and> pixel img 15 15 = (170, 170, 170))
   \<and> (\<exists>img3 img1.
          create_tile_image small_machine (replicate 8 (replicate 8 2))
             [(0, 0, 0), (85, 85, 85), (170, 170, 170), (255, 255, 255)] 3 = Inr img3
        \<and> create_tile_image small_machine (replicate 8 (replicate 8 2))
             [(0, 0, 0), (85, 85, 85), (170, 170, 170), (255, 255, 255)] 1 = Inr img1
        \<and> downsample_nearest 3 1 1 img3 = img1)"
proof -
  let ?grid = "replicate 8 (replicate 8 (2::int))"
  let ?pal = "[(0, 0, 0), (85, 85, 85), (170, 170, 170), (255, 255, 255)] :: rgb list"
  have h1: "length ?grid = 8" by simp
  have h2: "\<forall>y<8. length (?grid ! y) = 8 \<and> (\<forall>x<8. ?grid ! y ! x \<in> {0, 1, 2, 3})" by simp
  have h3: "length ?pal = 4" by simp
  have h4: "\<forall>c\<in>set ?pal. is_rgb c" by (simp add: is_rgb_def)
  have h5: "(1::int) \<le> 2" by simp
  have r16: "can_create small_machine (8 * 2) (8 * 2)"
    and r24: "can_create small_machine 24 24" and r8: "can_create small_machine 8 8"
    by (simp_all add: can_create_def small_machine_def INT_MAX_def)
  from create_tile_image_blocks [OF h1 h2 h3 h4 h5, of small_machine] r16 r24 r8
  obtain img img3 img1 where
    a: "create_tile_image small_machine ?grid ?pal 2 = Inr img" "int (width img) = 8 * 2"
       "int (height img) = 8 * 2"
       "\<forall>x<8. \<forall>y<8. \<forall>dx<nat 2. \<forall>dy<nat 2.
          pixel img (x * nat 2 + dx) (y * nat 2 + dy) = ?pal ! nat (?grid ! y ! x)"
    and b: "create_tile_image small_machine ?grid ?pal 3 = Inr img3"
       "create_tile_image small_machine ?grid ?pal 1 = Inr img1"
       "\<forall>ox<3. \<forall>oy<3. downsample_nearest 3 ox oy img3 = img1"
    by blast
  from a(4) [rule_format, of 7 7 1 1] have "pixel img 15 15 = (170, 170, 170)" by simp
  moreover from b(3) have "downsample_nearest 3 1 1 img3 = img1" by simp
  ultimately show ?thesis using a(1-3) b(1,2) by auto
qed

text \<open>
  Claim C8 as it is stated, for every scale of at least 1 and every palette of
  four colours, fails twice. At scale \<open>2 ^ 27\<close> the raster would be \<open>2 ^ 30\<close>
  pixels wide and \<open>Image.new\<close> raises \<open>MemoryError\<close>, even on a machine that
  refuses no allocation. And at scale 1 with the colour \<open>(300, -5, 0)\<close> at
  index 0 of the palette, the pixels of index 0 are \<open>(255, 0, 0)\<close>: Pillow
  stores 8 bits per channel and clamps.
\<close>

theorem create_tile_image_blocks_counterexample:
  "create_tile_image plenty (replicate 8 (replicate 8 0))
      [(0, 0, 0), (85, 85, 85), (170, 170, 170), (255, 255, 255)] (2 ^ 27) = Inl MemoryError
   \<and> create_tile_image plenty (replicate 8 (replicate 8 0))
      [(300, - 5, 0), (85, 85, 85), (170, 170, 170), (255, 255, 255)] 1
       = Inr \<lparr>width = 8, height = 8, pix = replicate 8 (replicate 8 (255, 0, 0))\<rparr>
   \<and> pixel \<lparr>width = 8, height = 8, pix = replicate 8 (replicate 8 (255, 0, 0))\<rparr> 0 0
       \<noteq> [(300, - 5, 0), (85, 85, 85), (170, 170, 170), (255, 255, 255)] ! 0"
proof -
  let ?grid = "replicate 8 (replicate 8 (0::int))"
  let ?bad = "[(300, - 5, 0), (85, 85, 85), (170, 170, 170), (255, 255, 255)] :: rgb list"
  let ?red = "\<lparr>width = 8, height = 8, pix = replicate 8 (replicate 8 (255, 0, 0))\<rparr> :: image"
  have big: "create_tile_image plenty ?grid
      [(0, 0, 0), (85, 85, 85), (170, 170, 170), (255, 255, 255)] (2 ^ 27) = Inl MemoryError"
    by (simp add: create_tile_image_def Image_new_def INT_MAX_def bind_err_def plenty_def)
  have room: "can_create plenty (8 * 1) (8 * 1)"
    by (simp add: can_create_def plenty_def INT_MAX_def)
  have ink: "getink (?bad ! nat (?grid ! y ! x)) = Inr (clip_rgb (?bad ! nat (?grid ! y ! x)))"
    if "x < 8" "y < 8" for x y :: nat
    using that by (simp add: getink_def)
  have "\<exists>img. create_tile_image plenty ?grid ?bad 1 = Inr img \<and> wf_image img
          \<and> width img = 8 * nat 1 \<and> height img = 8 * nat 1
          \<and> (\<forall>X<8 * nat 1. \<forall>Y<8 * nat 1.
                pixel img X Y = clip_rgb (?bad ! nat (?grid ! (Y div nat 1) ! (X div nat 1))))"
    by (rule create_tile_image_closed [OF _ _ _ ink _ room]) simp_all
  then obtain img where img: "create_tile_image plenty ?grid ?bad 1 = Inr img" "wf_image img"
      "width img = 8" "height img = 8"
      "\<And>X Y. X < 8 \<Longrightarrow> Y < 8 \<Longrightarrow> pixel img X Y = (255, 0, 0)"
    by (auto simp: clip_rgb_def CLIP8_def)
  have "img = ?red"
    by (rule image_eqI) (use img in \<open>simp_all add: wf_image_def pixel_def\<close>)
  then have clamp: "create_tile_image plenty ?grid ?bad 1 = Inr ?red" using img(1) by simp
  show ?thesis using big clamp by (simp add: pixel_def)
qed

section \<open>The sheet compositor\<close>

lemma cell_index:
  assumes "a < (ts::nat)" "c < t"
  shows "(c * ts + a) div ts = c" "(c * ts + a) mod ts = a" "(r * t + c) div t = r" "(r * t + c) mod t = c"
  using assms by simp_all

lemma create_sprite_sheet_closed:
  assumes pal: "4 \<le> length palette" and rgb: "\<And>c. c \<in> set palette \<Longrightarrow> is_rgb c"
    and tpr: "1 \<le> tpr" and s: "1 \<le> scale" and fits: "sheet_fits e d tpr scale"
  shows "\<exists>sheet. create_sprite_sheet e d palette tpr scale = Inr sheet \<and> wf_image sheet
    \<and> width sheet = nat tpr * (8 * nat scale)
    \<and> height sheet = ((length d div 16 + nat tpr - 1) div nat tpr) * (8 * nat scale)
    \<and> (\<forall>px<width sheet. \<forall>py<height sheet.
          pixel sheet px py =
            (let i = (py div (8 * nat scale)) * nat tpr + px div (8 * nat scale)
             in if i < length d div 16
                then palette ! nat (tile_grid d i ! ((py mod (8 * nat scale)) div nat scale)
                                                  ! ((px mod (8 * nat scale)) div nat scale))
                else (0, 0, 0)))"
proof -
  define n where "n = length d div 16"
  define t where "t = nat tpr"
  define sn where "sn = nat scale"
  define ts where "ts = 8 * sn"
  define R where "R = (n + t - 1) div t"
  have t: "0 < t" "int t = tpr" using tpr by (simp_all add: t_def)
  have sn: "0 < sn" "int sn = scale" using s by (simp_all add: sn_def)
  have ts: "0 < ts" "int ts = 8 * scale" using sn by (simp_all add: ts_def)
  define col where "col = (\<lambda>px py.
      palette ! nat (tile_grid d ((py div ts) * t + px div ts) ! ((py mod ts) div sn) ! ((px mod ts) div sn)))"
  have num: "int (length d) div 16 = int n" by (simp add: n_def zdiv_int)
  have rows: "(int n + tpr - 1) div tpr = int R"
  proof -
    have "int n + tpr - 1 = int (n + t - 1)" using t by (simp add: of_nat_diff)
    then show ?thesis by (simp add: R_def zdiv_int t(2))
  qed
  have fd: "py_floordiv (int n + tpr - 1) tpr = Inr (int R)"
    using tpr rows by (simp add: py_floordiv_def)
  have dims: "tpr * (8 * scale) = int (t * ts)" "int R * (8 * scale) = int (R * ts)"
    using t ts by simp_all
  have "can_create e (tpr * (8 * scale)) (int R * (8 * scale))"
    using fits unfolding sheet_fits_def num rows by blast
  then have roomS: "can_create e (int (t * ts)) (int (R * ts))"
    unfolding dims .
  have roomT: "can_create e (8 * scale) (8 * scale)" if "0 < n"
  proof -
    have "16 \<le> length d" using that by (simp add: n_def)
    then show ?thesis using fits unfolding sheet_fits_def by blast
  qed
  from Image_new_nat [OF roomS] obtain sheet0 where
    sheet0: "Image_new e (int (t * ts)) (int (R * ts)) = Inr sheet0" "wf_image sheet0"
      "width sheet0 = t * ts" "height sheet0 = R * ts"
      "\<And>x y. x < t * ts \<Longrightarrow> y < R * ts \<Longrightarrow> pixel sheet0 x y = (0, 0, 0)"
    by blast
  let ?step = "\<lambda>tile_idx sheet.
                  bind_err (decode_tile d (int tile_idx)) (\<lambda>tile_pixels.
                  bind_err (create_tile_image e tile_pixels palette scale) (\<lambda>tile_img.
                  bind_err (py_floordiv (int tile_idx) tpr) (\<lambda>row.
                  bind_err (py_mod (int tile_idx) tpr) (\<lambda>col.
                  let x = col * (8 * scale); y = row * (8 * scale)
                  in Inr (paste sheet tile_img x y)))))"
  have "\<exists>sheet. foldM ?step [0..<n] sheet0 = Inr sheet
      \<and> painted sheet0 sheet
           (\<lambda>px py. \<exists>i<n. (i mod t) * ts \<le> px \<and> px < (i mod t) * ts + ts
                          \<and> (i div t) * ts \<le> py \<and> py < (i div t) * ts + ts) col"
  proof (rule foldM_painted [OF _ sheet0(2)])
    fix i sheet1
    assume i: "i < n"
    then have i': "i < length d div 16" by (simp add: n_def)
    note g = tile_grid_ok [OF i']
    have cells: "0 \<le> tile_grid d i ! y ! x \<and> tile_grid d i ! y ! x < int (length palette)"
      if "x < 8" "y < 8" for x y
      using g(4) [OF that] pal by simp
    have "0 < n" using i by simp
    from create_tile_image_rgb [OF g(2) g(3) cells rgb s roomT [OF this]] obtain timg where
      timg: "create_tile_image e (tile_grid d i) palette scale = Inr timg"
        "width timg = ts" "height timg = ts"
        "\<And>X Y. X < ts \<Longrightarrow> Y < ts \<Longrightarrow>
           pixel timg X Y = palette ! nat (tile_grid d i ! (Y div sn) ! (X div sn))"
      unfolding ts_def sn_def by blast
    have dv: "py_floordiv (int i) tpr = Inr (int (i div t))"
      using tpr by (simp add: py_floordiv_def zdiv_int t(2) [symmetric])
    have md: "py_mod (int i) tpr = Inr (int (i mod t))"
      using tpr by (simp add: py_mod_def zmod_int t(2) [symmetric])
    have xy: "int (i mod t) * (8 * scale) = int ((i mod t) * ts)"
             "int (i div t) * (8 * scale) = int ((i div t) * ts)"
      using ts by simp_all
    have step: "?step i sheet1 = Inr (paste sheet1 timg (int ((i mod t) * ts)) (int ((i div t) * ts)))"
      by (simp only: g(1) timg(1) dv md bind_err_Inr Let_def xy)
    have c: "col ((i mod t) * ts + a) ((i div t) * ts + b) = pixel timg a b"
      if "a < width timg" "b < height timg" for a b
    proof -
      have a: "a < ts" and b: "b < ts" using that timg(2,3) by simp_all
      have m: "i mod t < t" using t(1) by simp
      have "((i div t) * ts + b) div ts * t + ((i mod t) * ts + a) div ts = i"
        using a b m by (simp add: cell_index)
      moreover have "((i mod t) * ts + a) mod ts = a" "((i div t) * ts + b) mod ts = b"
        using a b by simp_all
      ultimately show ?thesis
        using timg(4) [OF a b] by (simp add: col_def)
    qed
    have "painted sheet1 (paste sheet1 timg (int ((i mod t) * ts)) (int ((i div t) * ts)))
           (\<lambda>px py. (i mod t) * ts \<le> px \<and> px < (i mod t) * ts + width timg
                    \<and> (i div t) * ts \<le> py \<and> py < (i div t) * ts + height timg) col"
      by (rule paste_painted) (rule c)
    then show "\<exists>sheet2. ?step i sheet1 = Inr sheet2
        \<and> painted sheet1 sheet2
             (\<lambda>px py. (i mod t) * ts \<le> px \<and> px < (i mod t) * ts + ts
                      \<and> (i div t) * ts \<le> py \<and> py < (i div t) * ts + ts) col"
      unfolding step timg(2,3) by blast
  qed
  then obtain sheet where loop: "foldM ?step [0..<n] sheet0 = Inr sheet"
    and p: "painted sheet0 sheet
           (\<lambda>px py. \<exists>i<n. (i mod t) * ts \<le> px \<and> px < (i mod t) * ts + ts
                          \<and> (i div t) * ts \<le> py \<and> py < (i div t) * ts + ts) col"
    by blast
  have rng: "py_range (int n) = [0..<n]" by (simp add: py_range_def)
  have res: "create_sprite_sheet e d palette tpr scale = Inr sheet"
    by (simp only: create_sprite_sheet_def Let_def num fd bind_err_Inr dims sheet0(1) rng loop [unfolded Let_def])
  have region: "(\<exists>i<n. (i mod t) * ts \<le> px \<and> px < (i mod t) * ts + ts
                          \<and> (i div t) * ts \<le> py \<and> py < (i div t) * ts + ts)
              = ((py div ts) * t + px div ts < n)"
    if px: "px < t * ts" for px py
  proof
    assume "\<exists>i<n. (i mod t) * ts \<le> px \<and> px < (i mod t) * ts + ts
                          \<and> (i div t) * ts \<le> py \<and> py < (i div t) * ts + ts"
    then obtain i where i: "i < n" "(i mod t) * ts \<le> px" "px < (i mod t) * ts + ts"
      "(i div t) * ts \<le> py" "py < (i div t) * ts + ts" by blast
    have "px div ts = i mod t"
      using i(2,3) ts(1) by (metis add.commute div_nat_eqI mult.commute mult_Suc_right)
    moreover have "py div ts = i div t"
      using i(4,5) ts(1) by (metis add.commute div_nat_eqI mult.commute mult_Suc_right)
    ultimately show "(py div ts) * t + px div ts < n" using i(1) by simp
  next
    assume a: "(py div ts) * t + px div ts < n"
    have c: "px div ts < t" using px ts(1) by (simp add: less_mult_imp_div_less)
    let ?i = "(py div ts) * t + px div ts"
    have "?i mod t = px div ts" "?i div t = py div ts" using c by simp_all
    moreover have "(px div ts) * ts \<le> px" "(py div ts) * ts \<le> py" by simp_all
    moreover have "px < (px div ts) * ts + ts" "py < (py div ts) * ts + ts"
      using dividend_less_div_times [OF ts(1), of px] dividend_less_div_times [OF ts(1), of py]
      by (simp_all add: add.commute)
    ultimately show "\<exists>i<n. (i mod t) * ts \<le> px \<and> px < (i mod t) * ts + ts
                          \<and> (i div t) * ts \<le> py \<and> py < (i div t) * ts + ts"
      using a by metis
  qed
  have pix: "pixel sheet px py = (if (py div ts) * t + px div ts < n then col px py else (0, 0, 0))"
    if "px < t * ts" "py < R * ts" for px py
    using p that sheet0(3,4) sheet0(5) [OF that] region [OF that(1), of py]
    unfolding painted_def by simp
  have "wf_image sheet" "width sheet = t * ts" "height sheet = R * ts"
    using p sheet0(3,4) unfolding painted_def by simp_all
  then show ?thesis
    using res pix unfolding Let_def col_def n_def t_def sn_def ts_def R_def by auto
qed

lemma ceiling_div_nat:
  assumes "0 < t"
  shows "\<lceil>real n / real t\<rceil> = int ((n + t - 1) div t)"
proof -
  define q where "q = (n + t - 1) div t"
  have "q * t \<le> n + t - 1" by (simp add: q_def)
  then have up: "q * t < n + t" using assms by linarith
  have "n + t - 1 < t + q * t"
    unfolding q_def by (rule dividend_less_div_times [OF assms])
  then have lo: "n \<le> q * t" by linarith
  have "real n \<le> real (q * t)" using lo by (simp only: of_nat_le_iff)
  then have a: "real n / real t \<le> of_int (int q)"
    using assms by (simp add: pos_divide_le_eq)
  have "real (q * t) < real (n + t)" using up by (simp only: of_nat_less_iff)
  then have "(real q - 1) * real t < real n" by (simp add: algebra_simps)
  then have b: "of_int (int q) - 1 < real n / real t"
    using assms by (simp add: pos_less_divide_eq)
  show ?thesis unfolding q_def [symmetric] by (rule ceiling_unique [OF b a])
qed

lemma div_less_rows:
  assumes "i < n" "0 < (t::nat)"
  shows "i div t < (n + t - 1) div t"
proof -
  have "i + t \<le> n + t - 1" using assms by linarith
  then have "(i + t) div t \<le> (n + t - 1) div t" by (rule div_le_mono)
  then show ?thesis using assms(2) by simp
qed

lemma foldM_Cons_InrD:
  "foldM f (x # xs) s = Inr t \<Longrightarrow> \<exists>s'. f x s = Inr s'"
  by (cases "f x s") simp_all

lemma create_sprite_sheet_size:
  assumes res: "create_sprite_sheet e d palette tpr scale = Inr sheet"
    and tpr: "1 \<le> tpr" and s: "1 \<le> scale"
  shows "width sheet = nat tpr * (8 * nat scale)"
    and "height sheet = ((length d div 16 + nat tpr - 1) div nat tpr) * (8 * nat scale)"
    and "sheet_fits e d tpr scale"
proof -
  define n where "n = length d div 16"
  define t where "t = nat tpr"
  define R where "R = (n + t - 1) div t"
  have t: "0 < t" "int t = tpr" using tpr by (simp_all add: t_def)
  have num: "int (length d) div 16 = int n" by (simp add: n_def zdiv_int)
  have "int n + tpr - 1 = int (n + t - 1)" using t by (simp add: of_nat_diff)
  then have rows: "(int n + tpr - 1) div tpr = int R" by (simp add: R_def zdiv_int t(2))
  have fd: "py_floordiv (int n + tpr - 1) tpr = Inr (int R)"
    using tpr rows by (simp add: py_floordiv_def)
  let ?step = "\<lambda>tile_idx sheet.
                  bind_err (decode_tile d (int tile_idx)) (\<lambda>tile_pixels.
                  bind_err (create_tile_image e tile_pixels palette scale) (\<lambda>tile_img.
                  bind_err (py_floordiv (int tile_idx) tpr) (\<lambda>row.
                  bind_err (py_mod (int tile_idx) tpr) (\<lambda>col.
                  Inr (paste sheet tile_img (col * (8 * scale)) (row * (8 * scale)))))))"
  from res obtain sheet0 where
    new: "Image_new e (tpr * (8 * scale)) (int R * (8 * scale)) = Inr sheet0"
    and loop: "foldM ?step (py_range (int n)) sheet0 = Inr sheet"
    unfolding create_sprite_sheet_def Let_def num fd bind_err_Inr
    by (auto dest: bind_err_InrD)
  have P0: "width sheet0 = nat (tpr * (8 * scale)) \<and> height sheet0 = nat (int R * (8 * scale))"
    using new by (simp add: Image_new_Inr_iff)
  have keep: "width s2 = w \<and> height s2 = h"
    if "?step x s1 = Inr s2" "width s1 = w \<and> height s1 = h" for x s1 s2 w h
    using that by (auto dest!: bind_err_InrD simp: paste_def)
  have "width sheet = nat (tpr * (8 * scale)) \<and> height sheet = nat (int R * (8 * scale))"
    by (rule foldM_preserves [where f = ?step and s = sheet0 and xs = "py_range (int n)"
          and P = "\<lambda>im. width im = nat (tpr * (8 * scale)) \<and> height im = nat (int R * (8 * scale))"])
       (use keep P0 loop in blast)+
  then show "width sheet = nat tpr * (8 * nat scale)"
    and "height sheet = ((length d div 16 + nat tpr - 1) div nat tpr) * (8 * nat scale)"
    using tpr s by (simp_all add: nat_mult_distrib R_def n_def t_def)
  have roomS: "can_create e (tpr * (8 * scale)) (int R * (8 * scale))"
    using new by (simp add: Image_new_Inr_iff)
  have roomT: "can_create e (8 * scale) (8 * scale)" if "16 \<le> length d"
  proof -
    have "0 < n" using that by (simp add: n_def)
    then have "py_range (int n) = 0 # [1..<n]"
      by (simp add: py_range_def upt_conv_Cons)
    with loop obtain s1 where "?step 0 sheet0 = Inr s1"
      using foldM_Cons_InrD [of ?step 0 "[1..<n]" sheet0 sheet] by auto
    then obtain g timg where "create_tile_image e g palette scale = Inr timg"
      by (auto dest!: bind_err_InrD)
    then show ?thesis by (rule create_tile_image_InrD)
  qed
  show "sheet_fits e d tpr scale"
    unfolding sheet_fits_def num rows using roomS roomT by blast
qed

lemma sheet_fits_take:
  "sheet_fits e (take (16 * (length d div 16)) d) tpr scale = sheet_fits e d tpr scale"
proof -
  have "length (take (16 * (length d div 16)) d) = 16 * (length d div 16)" by simp
  moreover have "(16 \<le> 16 * (length d div 16)) = (16 \<le> length d)"
    by (metis One_nat_def Suc_leI div_greater_zero_iff le_numeral_extra(3) less_Suc_eq_le
          mult.right_neutral mult_le_mono2 not_less_eq_eq zero_less_numeral
          div_mult_self1_is_m nonzero_mult_div_cancel_left div_le_mono zero_neq_numeral)
  moreover have "int (16 * (length d div 16)) div 16 = int (length d) div 16"
    by (simp add: zdiv_int)
  ultimately show ?thesis unfolding sheet_fits_def by (simp only:)
qed

lemma create_sprite_sheet_take:
  assumes "4 \<le> length palette" "\<And>c. c \<in> set palette \<Longrightarrow> is_rgb c"
    "1 \<le> tpr" "1 \<le> scale" "sheet_fits e d tpr scale"
  shows "create_sprite_sheet e (take (16 * (length d div 16)) d) palette tpr scale
       = create_sprite_sheet e d palette tpr scale"
proof -
  define d' where "d' = take (16 * (length d div 16)) d"
  have len: "length d' div 16 = length d div 16" by (simp add: d'_def)
  have fits': "sheet_fits e d' tpr scale"
    unfolding d'_def sheet_fits_take by (rule assms(5))
  from create_sprite_sheet_closed [OF assms, of] obtain a where
    a: "create_sprite_sheet e d palette tpr scale = Inr a" "wf_image a"
      "width a = nat tpr * (8 * nat scale)"
      "height a = ((length d div 16 + nat tpr - 1) div nat tpr) * (8 * nat scale)"
      "\<And>px py. px < width a \<Longrightarrow> py < height a \<Longrightarrow> pixel a px py =
            (let i = (py div (8 * nat scale)) * nat tpr + px div (8 * nat scale)
             in if i < length d div 16
                then palette ! nat (tile_grid d i ! ((py mod (8 * nat scale)) div nat scale)
                                                  ! ((px mod (8 * nat scale)) div nat scale))
                else (0, 0, 0))"
    by blast
  from create_sprite_sheet_closed [OF assms(1-4) fits'] obtain b where
    b: "create_sprite_sheet e d' palette tpr scale = Inr b" "wf_image b"
      "width b = nat tpr * (8 * nat scale)"
      "height b = ((length d div 16 + nat tpr - 1) div nat tpr) * (8 * nat scale)"
      "\<And>px py. px < width b \<Longrightarrow> py < height b \<Longrightarrow> pixel b px py =
            (let i = (py div (8 * nat scale)) * nat tpr + px div (8 * nat scale)
             in if i < length d div 16
                then palette ! nat (tile_grid d' i ! ((py mod (8 * nat scale)) div nat scale)
                                                  ! ((px mod (8 * nat scale)) div nat scale))
                else (0, 0, 0))"
    unfolding len by blast
  have "b = a"
  proof (rule image_eqI [OF b(2) a(2)])
    show "width b = width a" by (simp add: a(3) b(3))
    show "height b = height a" by (simp add: a(4) b(4))
  next
    fix x y assume xy: "x < width b" "y < height b"
    then have xy': "x < width a" "y < height a" by (simp_all add: a(3,4) b(3,4))
    show "pixel b x y = pixel a x y"
      unfolding a(5) [OF xy'] b(5) [OF xy] Let_def d'_def
      by (simp add: tile_grid_take)
  qed
  then show ?thesis using a(1) b(1) by (simp add: d'_def)
qed

lemma sheet_tile_region:
  assumes "4 \<le> length palette" "\<And>c. c \<in> set palette \<Longrightarrow> is_rgb c"
    "1 \<le> tpr" "1 \<le> scale" "sheet_fits e d tpr scale" "i < length d div 16"
  shows "\<exists>sheet. create_sprite_sheet e d palette tpr scale = Inr sheet
     \<and> (i mod nat tpr) * (8 * nat scale) + 8 * nat scale \<le> width sheet
     \<and> (i div nat tpr) * (8 * nat scale) + 8 * nat scale \<le> height sheet
     \<and> (\<forall>a<8 * nat scale. \<forall>b<8 * nat scale.
          pixel sheet ((i mod nat tpr) * (8 * nat scale) + a) ((i div nat tpr) * (8 * nat scale) + b)
            = palette ! nat (tile_grid d i ! (b div nat scale) ! (a div nat scale)))"
proof -
  define t where "t = nat tpr"
  define ts where "ts = 8 * nat scale"
  define R where "R = (length d div 16 + t - 1) div t"
  have t: "0 < t" using assms(3) by (simp add: t_def)
  have ts: "0 < ts" using assms(4) by (simp add: ts_def)
  from create_sprite_sheet_closed [OF assms(1-5)] obtain sheet where
    sh: "create_sprite_sheet e d palette tpr scale = Inr sheet"
      "width sheet = t * ts" "height sheet = R * ts"
      "\<And>px py. px < width sheet \<Longrightarrow> py < height sheet \<Longrightarrow> pixel sheet px py =
            (let j = (py div ts) * t + px div ts
             in if j < length d div 16
                then palette ! nat (tile_grid d j ! ((py mod ts) div nat scale)
                                                  ! ((px mod ts) div nat scale))
                else (0, 0, 0))"
    unfolding t_def ts_def R_def by blast
  have m: "i mod t < t" using t by simp
  have r: "i div t < R" unfolding R_def by (rule div_less_rows [OF assms(6) t])
  have "(i mod t + 1) * ts \<le> t * ts" using m by (intro mult_right_mono) simp_all
  then have w: "(i mod t) * ts + ts \<le> width sheet" by (simp add: sh(2))
  have "(i div t + 1) * ts \<le> R * ts" using r by (intro mult_right_mono) simp_all
  then have h: "(i div t) * ts + ts \<le> height sheet" by (simp add: sh(3))
  have "pixel sheet ((i mod t) * ts + a) ((i div t) * ts + b)
            = palette ! nat (tile_grid d i ! (b div nat scale) ! (a div nat scale))"
    if ab: "a < ts" "b < ts" for a b
  proof -
    have px: "(i mod t) * ts + a < width sheet" using w ab(1) by simp
    have py: "(i div t) * ts + b < height sheet" using h ab(2) by simp
    have "((i div t) * ts + b) div ts * t + ((i mod t) * ts + a) div ts = i"
      using ab m by (simp add: cell_index)
    moreover have "((i mod t) * ts + a) mod ts = a" "((i div t) * ts + b) mod ts = b"
      using ab by simp_all
    ultimately show ?thesis
      unfolding sh(4) [OF px py] Let_def using assms(6) by simp
  qed
  then show ?thesis using sh(1) w h unfolding t_def ts_def by blast
qed

lemma Image_new_Inl:
  "\<not> can_create e w h \<Longrightarrow> \<exists>err. Image_new e w h = Inl err"
  by (cases "Image_new e w h") (simp_all add: Image_new_Inr_iff)

text \<open>
  Claim C10, as amended. For every buffer shorter than 16 bytes, every
  \<open>tiles_per_row\<close> of at least 1 and every scale of at least 1, whatever the
  palette: when Pillow can create a raster of width
  \<open>tiles_per_row * 8 * scale\<close> and height 0 (so the width is at most
  \<open>INT_MAX / 4 - 1\<close>), \<open>create_sprite_sheet\<close> raises nothing and returns the
  empty sheet of that width and height 0, and when Pillow cannot, it raises.
  The row count \<open>(num_tiles + tiles_per_row - 1) // tiles_per_row\<close> is 0 and the
  loop over \<open>range(num_tiles)\<close> has no iteration.
\<close>

theorem create_sprite_sheet_no_tiles:
  assumes "length chr_data < 16" and "1 \<le> tiles_per_row" and "1 \<le> scale"
  shows "(can_create e (tiles_per_row * 8 * scale) 0 \<longrightarrow>
            create_sprite_sheet e chr_data palette tiles_per_row scale
              = Inr \<lparr>width = nat (tiles_per_row * 8 * scale), height = 0, pix = []\<rparr>)
       \<and> (\<not> can_create e (tiles_per_row * 8 * scale) 0 \<longrightarrow>
            (\<exists>err. create_sprite_sheet e chr_data palette tiles_per_row scale = Inl err))
       \<and> (int (length chr_data) div 16 + tiles_per_row - 1) div tiles_per_row = 0
       \<and> py_range (int (length chr_data) div 16) = []"
proof -
  have n: "int (length chr_data) div 16 = 0" using assms(1) by simp
  have r: "(0 + tiles_per_row - 1) div tiles_per_row = 0"
    using assms(2) by (simp add: div_pos_pos_trivial)
  have fd: "py_floordiv (0 + tiles_per_row - 1) tiles_per_row = Inr 0"
    using assms(2) r by (simp add: py_floordiv_def)
  have fn: "foldM f [] = (Inr :: image \<Rightarrow> error + image)" for f
    by (rule ext) simp
  have css: "create_sprite_sheet e chr_data palette tiles_per_row scale
      = bind_err (Image_new e (tiles_per_row * 8 * scale) 0) (\<lambda>sheet. Inr sheet)"
    unfolding create_sprite_sheet_def Let_def n fd bind_err_Inr
    by (simp add: py_range_def mult.assoc fn)
  have yes: "create_sprite_sheet e chr_data palette tiles_per_row scale
              = Inr \<lparr>width = nat (tiles_per_row * 8 * scale), height = 0, pix = []\<rparr>"
    if "can_create e (tiles_per_row * 8 * scale) 0"
  proof -
    have "Image_new e (tiles_per_row * 8 * scale) 0
        = Inr \<lparr>width = nat (tiles_per_row * 8 * scale), height = 0, pix = []\<rparr>"
      using that by (simp add: Image_new_Inr_iff)
    then show ?thesis by (simp add: css bind_err_def)
  qed
  have no: "\<exists>err. create_sprite_sheet e chr_data palette tiles_per_row scale = Inl err"
    if "\<not> can_create e (tiles_per_row * 8 * scale) 0"
    using Image_new_Inl [OF that] by (auto simp: css bind_err_def)
  show ?thesis using yes no n r by (simp add: py_range_def)
qed

theorem create_sprite_sheet_no_tiles_witness:
  "create_sprite_sheet small_machine (replicate 15 0xff) [] 3 2
     = Inr \<lparr>width = 48, height = 0, pix = []\<rparr>"
proof -
  have h1: "length (replicate 15 (0xff :: byte)) < 16" by simp
  have h2: "(1::int) \<le> 3" and h3: "(1::int) \<le> 2" by simp_all
  have room: "can_create small_machine (3 * 8 * 2) 0"
    by (simp add: can_create_def small_machine_def INT_MAX_def)
  from create_sprite_sheet_no_tiles [OF h1 h2 h3, of small_machine "[]"] room
  show ?thesis by simp
qed

text \<open>
  Claim C10 as it is stated, for every \<open>tiles_per_row\<close> and scale of at least
  1, fails: for the empty buffer, \<open>tiles_per_row = 2 ^ 26\<close> and scale 1 the
  sheet would be \<open>2 ^ 29\<close> pixels wide and 0 pixels tall, and \<open>Image.new\<close> raises
  \<open>MemoryError\<close> on the width, with nothing to allocate and even on a machine
  that refuses no allocation.
\<close>

theorem create_sprite_sheet_no_tiles_counterexample:
  "create_sprite_sheet plenty [] [] (2 ^ 26) 1 = Inl MemoryError"
  by (simp add: create_sprite_sheet_def py_floordiv_def bind_err_def Image_new_def
        INT_MAX_def plenty_def)

text \<open>
  Claim C6. For every buffer with at least one complete tile, every
  \<open>tiles_per_row\<close> of at least 1 and every scale of at least 1, every sheet
  \<open>create_sprite_sheet\<close> returns is \<open>tiles_per_row * 8 * scale\<close> pixels wide and
  \<open>ceil(tile_count / tiles_per_row) * 8 * scale\<close> pixels tall; 17 tiles at 16
  tiles per row make 2 rows of tiles at every scale. A sheet is returned when
  the palette has at least four \<open>RGB\<close> colours and Pillow can create the
  rasters asked for.
\<close>

theorem create_sprite_sheet_dimensions:
  assumes "1 \<le> length chr_data div 16" and "1 \<le> tiles_per_row" and "1 \<le> scale"
  shows "(\<forall>sheet. create_sprite_sheet e chr_data palette tiles_per_row scale = Inr sheet \<longrightarrow>
            int (width sheet) = tiles_per_row * 8 * scale
          \<and> int (height sheet)
              = \<lceil>real (length chr_data div 16) / real_of_int tiles_per_row\<rceil> * 8 * scale
          \<and> (length chr_data div 16 = 17 \<and> tiles_per_row = 16 \<longrightarrow>
                int (height sheet) = 2 * 8 * scale))
       \<and> (4 \<le> length palette \<and> (\<forall>c\<in>set palette. is_rgb c)
            \<and> sheet_fits e chr_data tiles_per_row scale \<longrightarrow>
            (\<exists>sheet. create_sprite_sheet e chr_data palette tiles_per_row scale = Inr sheet))"
proof -
  have t: "0 < nat tiles_per_row" "real_of_int tiles_per_row = real (nat tiles_per_row)"
    using assms(2) by simp_all
  have c: "\<lceil>real (length chr_data div 16) / real_of_int tiles_per_row\<rceil>
         = int ((length chr_data div 16 + nat tiles_per_row - 1) div nat tiles_per_row)"
    unfolding t(2) by (rule ceiling_div_nat [OF t(1)])
  have "int (width sheet) = tiles_per_row * 8 * scale
          \<and> int (height sheet)
              = \<lceil>real (length chr_data div 16) / real_of_int tiles_per_row\<rceil> * 8 * scale
          \<and> (length chr_data div 16 = 17 \<and> tiles_per_row = 16 \<longrightarrow>
                int (height sheet) = 2 * 8 * scale)"
    if "create_sprite_sheet e chr_data palette tiles_per_row scale = Inr sheet" for sheet
  proof -
    note sz = create_sprite_sheet_size [OF that assms(2,3)]
    have w: "int (width sheet) = tiles_per_row * 8 * scale"
      using sz(1) assms(2,3) by simp
    have h: "int (height sheet)
              = \<lceil>real (length chr_data div 16) / real_of_int tiles_per_row\<rceil> * 8 * scale"
      unfolding c using sz(2) assms(3) by simp
    have "int (height sheet) = 2 * 8 * scale"
      if "length chr_data div 16 = 17" "tiles_per_row = 16"
      using sz(2) that assms(3) by simp
    with w h show ?thesis by blast
  qed
  moreover have "\<exists>sheet. create_sprite_sheet e chr_data palette tiles_per_row scale = Inr sheet"
    if p: "4 \<le> length palette" "\<forall>c\<in>set palette. is_rgb c"
      "sheet_fits e chr_data tiles_per_row scale"
  proof -
    have r: "is_rgb c" if "c \<in> set palette" for c using p(2) that by blast
    from create_sprite_sheet_closed [OF p(1) r assms(2,3) p(3)] show ?thesis by blast
  qed
  ultimately show ?thesis by blast
qed

theorem create_sprite_sheet_dimensions_witness:
  "\<exists>sheet. create_sprite_sheet small_machine (replicate 272 0x1b)
              [(0, 0, 0), (85, 85, 85), (170, 170, 170), (255, 255, 255)] 16 3 = Inr sheet
     \<and> int (width sheet) = 384 \<and> int (height sheet) = 48"
proof -
  let ?d = "replicate 272 (0x1b :: byte)"
  let ?pal = "[(0, 0, 0), (85, 85, 85), (170, 170, 170), (255, 255, 255)] :: rgb list"
  have h1: "1 \<le> length ?d div 16" by simp
  have h2: "(1::int) \<le> 16" and h3: "(1::int) \<le> 3" by simp_all
  have n: "length ?d div 16 = 17" by simp
  have p: "4 \<le> length ?pal" "\<forall>c\<in>set ?pal. is_rgb c" by (simp_all add: is_rgb_def)
  have f: "sheet_fits small_machine ?d 16 3"
    by (simp add: sheet_fits_def can_create_def small_machine_def INT_MAX_def)
  from create_sprite_sheet_dimensions [OF h1 h2 h3, of small_machine ?pal] n p f
  show ?thesis by fastforce
qed

text \<open>
  Claim C7. For every tile index \<open>i\<close> below the number of complete tiles
  (with a palette of at least four \<open>RGB\<close> colours, \<open>tiles_per_row\<close> and scale
  at least 1), every sheet \<open>create_sprite_sheet\<close> returns holds the raster of
  tile \<open>i\<close>, which is \<open>8 * scale\<close> pixels square, pixel for pixel in the box
  whose top-left corner is
  \<open>((i mod tiles_per_row) * 8 * scale, (i div tiles_per_row) * 8 * scale)\<close>; the
  box lies inside the sheet, and no later paste overwrites it. Tile 16 at 16
  tiles per row is at grid row 1, column 0, that is at pixel \<open>(0, 8 * scale)\<close>.
  A sheet is returned when Pillow can create the rasters asked for.
\<close>

theorem tile_position:
  assumes "4 \<le> length palette" and "\<forall>c\<in>set palette. is_rgb c"
    and "1 \<le> tiles_per_row" and "1 \<le> scale"
    and "i < length chr_data div 16"
  shows "(\<forall>sheet. create_sprite_sheet e chr_data palette tiles_per_row scale = Inr sheet \<longrightarrow>
          (\<exists>grid tile_img.
               decode_tile chr_data (int i) = Inr grid
             \<and> create_tile_image e grid palette scale = Inr tile_img
             \<and> width tile_img = 8 * nat scale \<and> height tile_img = 8 * nat scale
             \<and> (i mod nat tiles_per_row) * 8 * nat scale + 8 * nat scale \<le> width sheet
             \<and> (i div nat tiles_per_row) * 8 * nat scale + 8 * nat scale \<le> height sheet
             \<and> (\<forall>a<8 * nat scale. \<forall>b<8 * nat scale.
                  pixel sheet ((i mod nat tiles_per_row) * 8 * nat scale + a)
                              ((i div nat tiles_per_row) * 8 * nat scale + b)
                    = pixel tile_img a b)
             \<and> (i = 16 \<and> tiles_per_row = 16 \<longrightarrow>
                  (\<forall>a<8 * nat scale. \<forall>b<8 * nat scale.
                     pixel sheet a (8 * nat scale + b) = pixel tile_img a b))))
       \<and> (sheet_fits e chr_data tiles_per_row scale \<longrightarrow>
            (\<exists>sheet. create_sprite_sheet e chr_data palette tiles_per_row scale = Inr sheet))"
proof -
  have pal: "is_rgb c" if "c \<in> set palette" for c using assms(2) that by blast
  have part: "\<exists>grid tile_img.
               decode_tile chr_data (int i) = Inr grid
             \<and> create_tile_image e grid palette scale = Inr tile_img
             \<and> width tile_img = 8 * nat scale \<and> height tile_img = 8 * nat scale
             \<and> (i mod nat tiles_per_row) * 8 * nat scale + 8 * nat scale \<le> width sheet
             \<and> (i div nat tiles_per_row) * 8 * nat scale + 8 * nat scale \<le> height sheet
             \<and> (\<forall>a<8 * nat scale. \<forall>b<8 * nat scale.
                  pixel sheet ((i mod nat tiles_per_row) * 8 * nat scale + a)
                              ((i div nat tiles_per_row) * 8 * nat scale + b)
                    = pixel tile_img a b)
             \<and> (i = 16 \<and> tiles_per_row = 16 \<longrightarrow>
                  (\<forall>a<8 * nat scale. \<forall>b<8 * nat scale.
                     pixel sheet a (8 * nat scale + b) = pixel tile_img a b))"
    if res: "create_sprite_sheet e chr_data palette tiles_per_row scale = Inr sheet" for sheet
  proof -
    have fits: "sheet_fits e chr_data tiles_per_row scale"
      by (rule create_sprite_sheet_size(3) [OF res assms(3,4)])
    have "16 \<le> length chr_data" using assms(5) by simp
    then have room: "can_create e (8 * scale) (8 * scale)"
      using fits unfolding sheet_fits_def by blast
    note g = tile_grid_ok [OF assms(5)]
    have cells: "0 \<le> tile_grid chr_data i ! y ! x
        \<and> tile_grid chr_data i ! y ! x < int (length palette)"
      if "x < 8" "y < 8" for x y
      using g(4) [OF that] assms(1) by simp
    from create_tile_image_rgb [OF g(2) g(3) cells pal assms(4) room] obtain timg where
      timg: "create_tile_image e (tile_grid chr_data i) palette scale = Inr timg"
        "width timg = 8 * nat scale" "height timg = 8 * nat scale"
        "\<And>X Y. X < 8 * nat scale \<Longrightarrow> Y < 8 * nat scale \<Longrightarrow>
           pixel timg X Y
             = palette ! nat (tile_grid chr_data i ! (Y div nat scale) ! (X div nat scale))"
      by blast
    from sheet_tile_region [OF assms(1) pal assms(3,4) fits assms(5)] res have
      sh: "(i mod nat tiles_per_row) * (8 * nat scale) + 8 * nat scale \<le> width sheet"
        "(i div nat tiles_per_row) * (8 * nat scale) + 8 * nat scale \<le> height sheet"
        "\<And>a b. a < 8 * nat scale \<Longrightarrow> b < 8 * nat scale \<Longrightarrow>
            pixel sheet ((i mod nat tiles_per_row) * (8 * nat scale) + a)
                        ((i div nat tiles_per_row) * (8 * nat scale) + b)
              = palette ! nat (tile_grid chr_data i ! (b div nat scale) ! (a div nat scale))"
      by auto
    have reg: "pixel sheet ((i mod nat tiles_per_row) * 8 * nat scale + a)
                        ((i div nat tiles_per_row) * 8 * nat scale + b) = pixel timg a b"
      if "a < 8 * nat scale" "b < 8 * nat scale" for a b
      using sh(3) [OF that] timg(4) [OF that] by (simp add: mult.assoc)
    have "pixel sheet a (8 * nat scale + b) = pixel timg a b"
      if "i = 16" "tiles_per_row = 16" "a < 8 * nat scale" "b < 8 * nat scale" for a b
      using reg [OF that(3,4)] that(1,2) by simp
    then show ?thesis
      using sh(1,2) g(1) timg(1-3) reg by (auto simp: mult.assoc)
  qed
  have ex: "\<exists>sheet. create_sprite_sheet e chr_data palette tiles_per_row scale = Inr sheet"
    if "sheet_fits e chr_data tiles_per_row scale"
    using create_sprite_sheet_closed [OF assms(1) pal assms(3,4) that] by blast
  show ?thesis using part ex by blast
qed

theorem tile_position_witness:
  "\<exists>sheet grid tile_img.
       create_sprite_sheet small_machine (replicate 272 0x1b)
          [(0, 0, 0), (85, 85, 85), (170, 170, 170), (255, 255, 255)] 16 1 = Inr sheet
     \<and> decode_tile (replicate 272 0x1b) 16 = Inr grid
     \<and> create_tile_image small_machine grid
          [(0, 0, 0), (85, 85, 85), (170, 170, 170), (255, 255, 255)] 1 = Inr tile_img
     \<and> width tile_img = 8 \<and> height tile_img = 8
     \<and> (\<forall>a<8. \<forall>b<8. pixel sheet a (8 + b) = pixel tile_img a b)"
proof -
  let ?d = "replicate 272 (0x1b :: byte)"
  let ?pal = "[(0, 0, 0), (85, 85, 85), (170, 170, 170), (255, 255, 255)] :: rgb list"
  have h1: "4 \<le> length ?pal" and h2: "\<forall>c\<in>set ?pal. is_rgb c"
    by (simp_all add: is_rgb_def)
  have h3: "(1::int) \<le> 16" and h4: "(1::int) \<le> 1" by simp_all
  have h5: "16 < length ?d div 16" by simp
  have f: "sheet_fits small_machine ?d 16 1"
    by (simp add: sheet_fits_def can_create_def small_machine_def INT_MAX_def)
  note tp = tile_position [OF h1 h2 h3 h4 h5, of small_machine]
  from tp f obtain sheet where
    sheet: "create_sprite_sheet small_machine ?d ?pal 16 1 = Inr sheet" by blast
  with tp obtain grid tile_img where
    a: "decode_tile ?d (int 16) = Inr grid"
       "create_tile_image small_machine grid ?pal 1 = Inr tile_img"
       "width tile_img = 8 * nat 1" "height tile_img = 8 * nat 1"
    and b: "(16::nat) = 16 \<and> (16::int) = 16 \<longrightarrow>
          (\<forall>a<8 * nat 1. \<forall>b<8 * nat 1.
             pixel sheet a (8 * nat 1 + b) = pixel tile_img a b)"
    by blast
  from b have "\<forall>a<8. \<forall>b<8. pixel sheet a (8 + b) = pixel tile_img a b" by simp
  moreover from a(2) have "decode_tile ?d 16 = Inr grid" using a(1) by simp
  moreover have "width tile_img = 8" "height tile_img = 8" using a(3,4) by simp_all
  ultimately show ?thesis using sheet a(2) by blast
qed

section \<open>The conversion command\<close>

lemma NES_PALETTE_rgb: "c \<in> set NES_PALETTE \<Longrightarrow> is_rgb c"
  by (auto simp: NES_PALETTE_def is_rgb_def)

lemma main_convert_closed:
  "main_convert e file_data palette_indices tpr scale
     = ((if length file_data mod 16 = 0 then [] else [Not_multiple_of_16 (length file_data)]),
        bind_err
          (create_sprite_sheet e (take (16 * (length file_data div 16)) file_data)
             (map (\<lambda>i. NES_PALETTE ! nat (i mod 64)) palette_indices) tpr scale)
          (\<lambda>sheet. bind_err (Image_save e sheet) (\<lambda>_. Inr sheet)))"
proof -
  define len where "len = length file_data"
  have m: "(int len mod 16 \<noteq> 0) = (len mod 16 \<noteq> 0)"
    by (metis of_nat_eq_0_iff of_nat_mod of_nat_numeral)
  have e: "16 * (len div 16) = len - len mod 16"
    by (metis minus_mod_eq_mult_div)
  have k: "int len - int len mod 16 = 0 + int (16 * (len div 16))"
    unfolding e by (simp add: of_nat_diff zmod_int)
  have "py_slice file_data 0 (0 + int (16 * (len div 16)))
      = take (nat (int (16 * (len div 16)))) (drop (nat 0) file_data)"
    by (rule py_slice_nat) (simp_all add: len_def)
  moreover have "nat (int (16 * (len div 16))) = 16 * (len div 16)" by (rule nat_int)
  ultimately have cut: "py_slice file_data 0 (int len - int len mod 16)
      = take (16 * (len div 16)) file_data"
    unfolding k by (simp only: nat_0 drop_0)
  have whole: "take (16 * (len div 16)) file_data = file_data" if "len mod 16 = 0"
    using that e by (simp add: len_def)
  show ?thesis
    unfolding main_convert_def get_palette_colors_closed bind_err_Inr len_def [symmetric] m cut
    using whole by (simp add: len_def)
qed

lemma main_convert_take:
  "snd (main_convert e (take (16 * (length d div 16)) d) palette_indices tpr scale)
     = snd (main_convert e d palette_indices tpr scale)"
proof -
  have "16 * (length d div 16) \<le> length d" by arith
  then have l: "length (take (16 * (length d div 16)) d) = 16 * (length d div 16)"
    by simp
  show ?thesis unfolding main_convert_closed l by simp
qed

text \<open>
  A buffer with no complete tile never converts: the sheet has no rows and
  \<open>sheet.save\<close> raises (or an earlier call does).
\<close>

lemma main_convert_no_tiles:
  assumes "length file_data < 16" and "1 \<le> tpr" and "1 \<le> scale"
  shows "\<exists>err. snd (main_convert e file_data palette_indices tpr scale) = Inl err"
proof (cases "snd (main_convert e file_data palette_indices tpr scale)")
  case (Inl err)
  then show ?thesis by blast
next
  case (Inr sheet)
  then obtain sh where
    sh: "create_sprite_sheet e (take (16 * (length file_data div 16)) file_data)
             (map (\<lambda>i. NES_PALETTE ! nat (i mod 64)) palette_indices) tpr scale = Inr sh"
    and sv: "Image_save e sh = Inr ()"
    unfolding main_convert_closed by (auto dest!: bind_err_InrD)
  have "height sh = 0"
    using create_sprite_sheet_size(2) [OF sh assms(2,3)] assms(1,2)
    by (simp add: div_pos_pos_trivial)
  then show ?thesis using sv by (simp add: Image_save_def split: if_splits)
qed

text \<open>
  Claim C5. For every input buffer (with at least four palette indices,
  \<open>tiles_per_row\<close> and scale at least 1), the tiles decoded and composed into
  every sheet \<open>create_sprite_sheet\<close> returns are exactly the \<open>floor(len / 16)\<close>
  complete tiles of the buffer: each of them is decoded from the buffer and
  fills its cell of the sheet, and every cell from \<open>floor(len / 16)\<close> on is left
  black. The sheet \<open>main\<close> saves is that sheet, and \<open>main\<close> ends on the buffer
  as it ends on the buffer without its trailing bytes, with the same sheet or
  the same exception: dropping them changes nothing but the warning, which is
  printed exactly when the length is not a multiple of 16. With at least one
  complete tile, \<open>main\<close> completes whenever Pillow can create the rasters and
  the output can be written: a buffer of 17 bytes gives the warning, one tile
  and a saved sheet. (With no complete tile the sheet has no rows and
  \<open>sheet.save\<close> raises, trailing bytes or not: \<open>main_convert_no_tiles\<close>.)
\<close>

theorem tiles_composed:
  assumes "4 \<le> length palette_indices" and "1 \<le> tiles_per_row" and "1 \<le> scale"
  shows "\<exists>palette.
       get_palette_colors palette_indices = Inr palette
     \<and> fst (main_convert e file_data palette_indices tiles_per_row scale)
         = (if length file_data mod 16 = 0 then []
            else [Not_multiple_of_16 (length file_data)])
     \<and> (\<forall>sheet. create_sprite_sheet e file_data palette tiles_per_row scale = Inr sheet \<longrightarrow>
           (\<forall>i<length file_data div 16. \<exists>grid.
               decode_tile file_data (int i) = Inr grid
             \<and> (\<forall>a<8 * nat scale. \<forall>b<8 * nat scale.
                   pixel sheet ((i mod nat tiles_per_row) * (8 * nat scale) + a)
                               ((i div nat tiles_per_row) * (8 * nat scale) + b)
                     = palette ! nat (grid ! (b div nat scale) ! (a div nat scale))))
         \<and> (\<forall>px<width sheet. \<forall>py<height sheet.
               length file_data div 16
                 \<le> (py div (8 * nat scale)) * nat tiles_per_row + px div (8 * nat scale)
               \<longrightarrow> pixel sheet px py = (0, 0, 0)))
     \<and> (\<forall>sheet. snd (main_convert e file_data palette_indices tiles_per_row scale) = Inr sheet
           \<longrightarrow> create_sprite_sheet e file_data palette tiles_per_row scale = Inr sheet)
     \<and> snd (main_convert e file_data palette_indices tiles_per_row scale)
         = snd (main_convert e (take (16 * (length file_data div 16)) file_data)
                  palette_indices tiles_per_row scale)
     \<and> (16 \<le> length file_data \<and> sheet_fits e file_data tiles_per_row scale \<and> can_write e
           \<longrightarrow> (\<exists>sheet. snd (main_convert e file_data palette_indices tiles_per_row scale)
                          = Inr sheet))
     \<and> (length file_data = 17 \<longrightarrow>
           fst (main_convert e file_data palette_indices tiles_per_row scale)
             = [Not_multiple_of_16 17]
         \<and> length file_data div 16 = 1)"
proof -
  define palette where "palette = map (\<lambda>i. NES_PALETTE ! nat (i mod 64)) palette_indices"
  define d' where "d' = take (16 * (length file_data div 16)) file_data"
  have pal: "get_palette_colors palette_indices = Inr palette"
    by (simp add: palette_def get_palette_colors_closed)
  have p4: "4 \<le> length palette" using assms(1) by (simp add: palette_def)
  have rgb: "is_rgb c" if "c \<in> set palette" for c
  proof -
    from that obtain i where "c = NES_PALETTE ! nat (i mod 64)" by (auto simp: palette_def)
    moreover have "nat (i mod 64) < length NES_PALETTE" by (simp add: length_NES_PALETTE)
    ultimately show ?thesis by (intro NES_PALETTE_rgb) simp
  qed
  have main: "main_convert e file_data palette_indices tiles_per_row scale
     = ((if length file_data mod 16 = 0 then [] else [Not_multiple_of_16 (length file_data)]),
        bind_err (create_sprite_sheet e d' palette tiles_per_row scale)
          (\<lambda>sheet. bind_err (Image_save e sheet) (\<lambda>_. Inr sheet)))"
    unfolding main_convert_closed palette_def d'_def ..
  have warn: "fst (main_convert e file_data palette_indices tiles_per_row scale)
         = (if length file_data mod 16 = 0 then []
            else [Not_multiple_of_16 (length file_data)])"
    by (simp add: main)
  have content: "(\<forall>i<length file_data div 16. \<exists>grid.
               decode_tile file_data (int i) = Inr grid
             \<and> (\<forall>a<8 * nat scale. \<forall>b<8 * nat scale.
                   pixel sheet ((i mod nat tiles_per_row) * (8 * nat scale) + a)
                               ((i div nat tiles_per_row) * (8 * nat scale) + b)
                     = palette ! nat (grid ! (b div nat scale) ! (a div nat scale))))
         \<and> (\<forall>px<width sheet. \<forall>py<height sheet.
               length file_data div 16
                 \<le> (py div (8 * nat scale)) * nat tiles_per_row + px div (8 * nat scale)
               \<longrightarrow> pixel sheet px py = (0, 0, 0))"
    if res: "create_sprite_sheet e file_data palette tiles_per_row scale = Inr sheet" for sheet
  proof -
    have fits: "sheet_fits e file_data tiles_per_row scale"
      by (rule create_sprite_sheet_size(3) [OF res assms(2,3)])
    from create_sprite_sheet_closed [OF p4 rgb assms(2,3) fits] res have
      sh: "\<And>px py. px < width sheet \<Longrightarrow> py < height sheet \<Longrightarrow> pixel sheet px py =
            (let j = (py div (8 * nat scale)) * nat tiles_per_row + px div (8 * nat scale)
             in if j < length file_data div 16
                then palette ! nat (tile_grid file_data j ! ((py mod (8 * nat scale)) div nat scale)
                                                  ! ((px mod (8 * nat scale)) div nat scale))
                else (0, 0, 0))"
      by auto
    have tiles: "\<exists>grid. decode_tile file_data (int i) = Inr grid
         \<and> (\<forall>a<8 * nat scale. \<forall>b<8 * nat scale.
               pixel sheet ((i mod nat tiles_per_row) * (8 * nat scale) + a)
                           ((i div nat tiles_per_row) * (8 * nat scale) + b)
                 = palette ! nat (grid ! (b div nat scale) ! (a div nat scale)))"
      if i: "i < length file_data div 16" for i
      using sheet_tile_region [OF p4 rgb assms(2,3) fits i] tile_grid_ok(1) [OF i] res by auto
    have bg: "pixel sheet px py = (0, 0, 0)"
      if "px < width sheet" "py < height sheet"
        "length file_data div 16
           \<le> (py div (8 * nat scale)) * nat tiles_per_row + px div (8 * nat scale)" for px py
      unfolding sh [OF that(1,2)] Let_def using that(3) by simp
    show ?thesis using tiles bg by blast
  qed
  have same: "create_sprite_sheet e file_data palette tiles_per_row scale = Inr sheet"
    if "snd (main_convert e file_data palette_indices tiles_per_row scale) = Inr sheet"
    for sheet
  proof -
    from that have res': "create_sprite_sheet e d' palette tiles_per_row scale = Inr sheet"
      unfolding main by (auto dest!: bind_err_InrD)
    have "sheet_fits e d' tiles_per_row scale"
      by (rule create_sprite_sheet_size(3) [OF res' assms(2,3)])
    then have fits: "sheet_fits e file_data tiles_per_row scale"
      unfolding d'_def sheet_fits_take .
    show ?thesis
      using create_sprite_sheet_take [OF p4 rgb assms(2,3) fits] res'
      unfolding d'_def by simp
  qed
  have runs: "\<exists>sheet. snd (main_convert e file_data palette_indices tiles_per_row scale)
                          = Inr sheet"
    if "16 \<le> length file_data" "sheet_fits e file_data tiles_per_row scale" "can_write e"
  proof -
    from create_sprite_sheet_closed [OF p4 rgb assms(2,3) that(2)] obtain sheet where
      sh: "create_sprite_sheet e file_data palette tiles_per_row scale = Inr sheet"
        "width sheet = nat tiles_per_row * (8 * nat scale)"
        "height sheet = ((length file_data div 16 + nat tiles_per_row - 1) div nat tiles_per_row)
                          * (8 * nat scale)"
      by blast
    have res': "create_sprite_sheet e d' palette tiles_per_row scale = Inr sheet"
      using create_sprite_sheet_take [OF p4 rgb assms(2,3) that(2)] sh(1)
      unfolding d'_def by simp
    have "0 < length file_data div 16" using that(1) by (simp add: div_greater_zero_iff)
    then have "0 div nat tiles_per_row
        < (length file_data div 16 + nat tiles_per_row - 1) div nat tiles_per_row"
      using assms(2) by (intro div_less_rows) simp_all
    then have "0 < width sheet" "0 < height sheet"
      using sh(2,3) assms(2,3) by simp_all
    then have "Image_save e sheet = Inr ()"
      using that(3) by (simp add: Image_save_def)
    then show ?thesis unfolding main by (simp add: res' bind_err_def)
  qed
  have "fst (main_convert e file_data palette_indices tiles_per_row scale)
             = [Not_multiple_of_16 17] \<and> length file_data div 16 = 1"
    if "length file_data = 17"
    using warn that by simp
  moreover note main_convert_take [of e file_data palette_indices tiles_per_row scale, symmetric]
  ultimately show ?thesis using pal warn content same runs by blast
qed

theorem tiles_composed_witness:
  "\<exists>sheet. main_convert small_machine (replicate 17 0x1b) [0x0f, 0x20, 0x28, 0x30] 16 1
             = ([Not_multiple_of_16 17], Inr sheet)
     \<and> (\<exists>grid. decode_tile (replicate 17 0x1b) 0 = Inr grid)
     \<and> (\<forall>px<width sheet. \<forall>py<height sheet.
           1 \<le> (py div 8) * 16 + px div 8 \<longrightarrow> pixel sheet px py = (0, 0, 0))"
proof -
  let ?d = "replicate 17 (0x1b :: byte)"
  let ?pi = "[0x0f, 0x20, 0x28, 0x30] :: int list"
  let ?m = "main_convert small_machine ?d ?pi 16 1"
  have h1: "4 \<le> length ?pi" by simp
  have h2: "(1::int) \<le> 16" and h3: "(1::int) \<le> 1" by simp_all
  have f: "16 \<le> length ?d \<and> sheet_fits small_machine ?d 16 1 \<and> can_write small_machine"
    by (simp add: sheet_fits_def can_create_def small_machine_def INT_MAX_def)
  from tiles_composed [OF h1 h2 h3, of small_machine ?d] obtain palette where
    w: "fst ?m = (if length ?d mod 16 = 0 then [] else [Not_multiple_of_16 (length ?d)])"
    and c: "\<forall>sheet. create_sprite_sheet small_machine ?d palette 16 1 = Inr sheet \<longrightarrow>
           (\<forall>i<length ?d div 16. \<exists>grid.
               decode_tile ?d (int i) = Inr grid
             \<and> (\<forall>a<8 * nat 1. \<forall>b<8 * nat 1.
                   pixel sheet ((i mod nat 16) * (8 * nat 1) + a) ((i div nat 16) * (8 * nat 1) + b)
                     = palette ! nat (grid ! (b div nat 1) ! (a div nat 1))))
         \<and> (\<forall>px<width sheet. \<forall>py<height sheet.
               length ?d div 16 \<le> (py div (8 * nat 1)) * nat 16 + px div (8 * nat 1)
               \<longrightarrow> pixel sheet px py = (0, 0, 0))"
    and s: "\<forall>sheet. snd ?m = Inr sheet
           \<longrightarrow> create_sprite_sheet small_machine ?d palette 16 1 = Inr sheet"
    and d: "16 \<le> length ?d \<and> sheet_fits small_machine ?d 16 1 \<and> can_write small_machine
           \<longrightarrow> (\<exists>sheet. snd ?m = Inr sheet)"
    by blast
  from d f obtain sheet where sheet: "snd ?m = Inr sheet" by blast
  have "fst ?m = [Not_multiple_of_16 17]" using w by simp
  with sheet have m: "?m = ([Not_multiple_of_16 17], Inr sheet)"
    by (simp add: prod_eq_iff)
  from s sheet have css: "create_sprite_sheet small_machine ?d palette 16 1 = Inr sheet"
    by blast
  from c css have t: "\<forall>i<length ?d div 16. \<exists>grid. decode_tile ?d (int i) = Inr grid
             \<and> (\<forall>a<8 * nat 1. \<forall>b<8 * nat 1.
                   pixel sheet ((i mod nat 16) * (8 * nat 1) + a) ((i div nat 16) * (8 * nat 1) + b)
                     = palette ! nat (grid ! (b div nat 1) ! (a div nat 1)))"
    and bg: "\<forall>px<width sheet. \<forall>py<height sheet.
               length ?d div 16 \<le> (py div (8 * nat 1)) * nat 16 + px div (8 * nat 1)
               \<longrightarrow> pixel sheet px py = (0, 0, 0)"
    by blast+
  have "\<exists>grid. decode_tile ?d 0 = Inr grid"
    using t [rule_format, of 0] by auto
  moreover have "\<forall>px<width sheet. \<forall>py<height sheet.
           1 \<le> (py div 8) * 16 + px div 8 \<longrightarrow> pixel sheet px py = (0, 0, 0)"
    using bg by simp
  ultimately show ?thesis using m by blast
qed

end
